theory Spec2Isabelle
  imports Complex_Main "HOL-Library.AList" "HOL-Library.Char_ord" "HOL-Library.List_Lexorder"
begin

section \<open>Data model (types.ts)\<close>

text \<open>
  The TypeScript type \<open>number\<close> is modelled by \<^typ>\<open>real\<close>: arithmetic is exact, and
  the amounts handed to the core are numbers proper, neither NaN nor infinite. (NaN arises
  inside \<open>getDetailedRawDebts\<close> from a missing cell; it is modelled there.) Identifiers
  are strings. Field names that clash with Isabelle keywords or constants carry a suffix
  (\<open>id\<close> becomes \<open>id'\<close>, \<open>from\<close> becomes \<open>from_id\<close>, \<open>to\<close> becomes \<open>to_id\<close>,
  the \<open>amount\<close> of a transaction becomes \<open>tx_amount\<close>). Fields the core never reads
  (the name of a member apart, which is printed) are left out: the id, title, date and
  timestamp of an expense, the optional explanation of a transaction.
\<close>

record Member =
  id' :: string
  name :: string

record SplitDetail =
  memberId :: string
  amount :: real

text \<open>Of an expense only the payer shares and the debtor shares are read by the core;
  the declared total is kept because one claim speaks about it.\<close>

record Expense =
  totalAmount :: real
  paidBy :: "SplitDetail list"
  splitAmong :: "SplitDetail list"

record Transaction =
  from_id :: string
  to_id :: string
  tx_amount :: real

text \<open>
  A BalanceSheet is a JavaScript object used as a dictionary. It is modelled by the list
  of its own properties in enumeration order (what \<open>Object.entries\<close> returns); the
  keys of an object are pairwise distinct. JavaScript enumerates keys that are array
  indices before the others; the list built by \<open>calculateBalances\<close> below is in
  insertion order, and nothing proved about it depends on the order.
\<close>

type_synonym BalanceSheet = "(string \<times> real) list"

definition wf_sheet :: "BalanceSheet \<Rightarrow> bool" where
  "wf_sheet b = distinct (map fst b)"

text \<open>
  A plain object inherits the properties of \<open>Object.prototype\<close>. Reading
  \<open>balances[k]\<close> for one of these names does not give \<open>undefined\<close> but the inherited
  value, and assigning to \<open>__proto__\<close> creates no key. The list model of an object is the
  object only for keys outside this set; ids generated by the application
  (\<open>Math.random().toString(36)\<close>) are outside it.
\<close>

definition inherited_names :: "string set" where
  "inherited_names =
     {''__proto__'', ''constructor'', ''toString'', ''toLocaleString'', ''valueOf'',
      ''hasOwnProperty'', ''isPrototypeOf'', ''propertyIsEnumerable'',
      ''__defineGetter__'', ''__defineSetter__'', ''__lookupGetter__'', ''__lookupSetter__''}"

section \<open>calculateBalances\<close>

text \<open>\<open>balances[k] || 0\<close>, for a key outside \<^const>\<open>inherited_names\<close>: a missing key
  reads as undefined, and undefined as well as the number 0 are replaced by 0.\<close>

definition get_or_zero :: "BalanceSheet \<Rightarrow> string \<Rightarrow> real" where
  "get_or_zero b k = (case map_of b k of None \<Rightarrow> 0 | Some v \<Rightarrow> (if v = 0 then 0 else v))"

text \<open>\<open>balances[k] = v\<close>, for a key outside \<^const>\<open>inherited_names\<close>: an existing
  property is overwritten in place, a new one is appended; this is \<^const>\<open>AList.update\<close>.
  The sums are sums of reals; the code adds doubles.\<close>

definition credit :: "BalanceSheet \<Rightarrow> SplitDetail \<Rightarrow> BalanceSheet" where
  "credit b payer =
     AList.update (memberId payer) (get_or_zero b (memberId payer) + amount payer) b"

definition debit :: "BalanceSheet \<Rightarrow> SplitDetail \<Rightarrow> BalanceSheet" where
  "debit b debtor =
     AList.update (memberId debtor) (get_or_zero b (memberId debtor) - amount debtor) b"

definition apply_expense :: "BalanceSheet \<Rightarrow> Expense \<Rightarrow> BalanceSheet" where
  "apply_expense b expense = foldl debit (foldl credit b (paidBy expense)) (splitAmong expense)"

text \<open>
  The objects the function can reach: its two arguments and the local object
  \<open>balances\<close>. The callbacks of the three \<open>forEach\<close> loops assign to properties of
  \<open>balances\<close> and to nothing else.
\<close>

record balance_state =
  cb_expenses :: "Expense list"
  cb_members :: "Member list"
  cb_balances :: BalanceSheet

definition calculateBalances_run :: "Expense list \<Rightarrow> Member list \<Rightarrow> balance_state" where
  "calculateBalances_run expenses members =
     (let s0 = \<lparr>cb_expenses = expenses, cb_members = members, cb_balances = []\<rparr>;
          s1 = foldl (\<lambda>s m. s\<lparr>cb_balances := AList.update (id' m) 0 (cb_balances s)\<rparr>)
                 s0 (cb_members s0)
      in foldl (\<lambda>s expense. s\<lparr>cb_balances := apply_expense (cb_balances s) expense\<rparr>)
           s1 (cb_expenses s1))"

definition calculateBalances :: "Expense list \<Rightarrow> Member list \<Rightarrow> BalanceSheet" where
  "calculateBalances expenses members = cb_balances (calculateBalances_run expenses members)"

text \<open>The sheet after the first loop: every member at 0.\<close>

definition init_balances :: "Member list \<Rightarrow> BalanceSheet" where
  "init_balances members = foldl (\<lambda>b m. AList.update (id' m) 0 b) [] members"

text \<open>The ids that occur in a payer or debtor share of some expense.\<close>

definition share_ids :: "Expense list \<Rightarrow> string set" where
  "share_ids expenses =
     (\<Union>e \<in> set expenses. memberId ` set (paidBy e) \<union> memberId ` set (splitAmong e))"

text \<open>No id of a member or of a share is the name of an inherited property.\<close>

definition plain_ids :: "Expense list \<Rightarrow> Member list \<Rightarrow> bool" where
  "plain_ids expenses members \<longleftrightarrow>
     (id' ` set members \<union> share_ids expenses) \<inter> inherited_names = {}"

text \<open>What the shares of one id add up to.\<close>

definition shares_of :: "string \<Rightarrow> SplitDetail list \<Rightarrow> real" where
  "shares_of k ss = sum_list (map amount (filter (\<lambda>s. memberId s = k) ss))"

definition net_of :: "string \<Rightarrow> Expense list \<Rightarrow> real" where
  "net_of k expenses =
     sum_list (map (\<lambda>e. shares_of k (paidBy e) - shares_of k (splitAmong e)) expenses)"

definition sheet_total :: "BalanceSheet \<Rightarrow> real" where
  "sheet_total b = sum_list (map snd b)"

definition share_total :: "SplitDetail list \<Rightarrow> real" where
  "share_total ss = sum_list (map amount ss)"

section \<open>calculateMinimalTransactions\<close>

text \<open>
  This section takes every amount as the real number it denotes. The code computes on
  doubles; the two agree as long as the helper \<open>round\<close> is exact on the amounts at
  hand, which it is up to about \<open>2.25e13\<close>. Beyond, the helper is no longer idempotent,
  and near \<open>1.8e306\<close> its product overflows; the function on doubles is the subject
  of the next section.
\<close>

text \<open>\<open>Math.round\<close> rounds to the nearest integer, a tie towards plus infinity.\<close>

definition Math_round :: "real \<Rightarrow> int" where
  "Math_round x = \<lfloor>x + 1 / 2\<rfloor>"

text \<open>The helper \<open>round\<close> of the source: two decimal places. On reals it cannot
  overflow and leaves a whole number of hundredths as it is.\<close>

definition round2 :: "real \<Rightarrow> real" where
  "round2 num = of_int (Math_round (num * 100)) / 100"

text \<open>The objects \<open>{ id, amount }\<close> held by the arrays \<open>debtors\<close> and \<open>creditors\<close>.\<close>

record entry =
  eid :: string
  eamount :: real

text \<open>
  The variables in scope inside the function: the argument \<open>balances\<close>, the two arrays,
  the two indices and the result array. The entries of the arrays are object literals
  created by the function, holding a copy of the key and of the rounded number.
\<close>

record settle_state =
  balances :: BalanceSheet
  debtors :: "entry list"
  creditors :: "entry list"
  idx_i :: nat
  idx_j :: nat
  transactions :: "Transaction list"

text \<open>The callback of \<open>Object.entries(balances).forEach\<close>.\<close>

definition classify :: "settle_state \<Rightarrow> string \<times> real \<Rightarrow> settle_state" where
  "classify s kv =
     (let val = round2 (snd kv);
          s1 = (if val < - 0.01
                then s\<lparr>debtors := debtors s @ [\<lparr>eid = fst kv, eamount = val\<rparr>]\<rparr> else s)
      in (if val > 0.01
          then s1\<lparr>creditors := creditors s1 @ [\<lparr>eid = fst kv, eamount = val\<rparr>]\<rparr> else s1))"

text \<open>\<open>Array.prototype.sort\<close> is stable; so is \<^const>\<open>sort_key\<close>. Debtors are sorted
  by ascending amount, creditors by descending amount.\<close>

definition sort_sides :: "settle_state \<Rightarrow> settle_state" where
  "sort_sides s =
     s\<lparr>debtors := sort_key eamount (debtors s),
       creditors := sort_key (\<lambda>c. - eamount c) (creditors s)\<rparr>"

definition running :: "settle_state \<Rightarrow> bool" where
  "running s \<longleftrightarrow> idx_i s < length (debtors s) \<and> idx_j s < length (creditors s)"

text \<open>One iteration of the \<open>while\<close> loop; \<open>debtor\<close> and \<open>creditor\<close> are references
  to the array elements, so the assignments to their \<open>amount\<close> update the arrays. On
  reals no amount is NaN, and one of the two open amounts reaches 0.\<close>

definition settle_step :: "settle_state \<Rightarrow> settle_state" where
  "settle_step s =
     (let debtor = debtors s ! idx_i s;
          creditor = creditors s ! idx_j s;
          amount = round2 (min \<bar>eamount debtor\<bar> (eamount creditor));
          roundedAmount = Math_round amount;
          s1 = (if roundedAmount > 0
                then s\<lparr>transactions := transactions s @
                        [\<lparr>from_id = eid debtor, to_id = eid creditor,
                          tx_amount = of_int roundedAmount\<rparr>]\<rparr>
                else s);
          debtor' = debtor\<lparr>eamount := round2 (eamount debtor + amount)\<rparr>;
          creditor' = creditor\<lparr>eamount := round2 (eamount creditor - amount)\<rparr>;
          s2 = s1\<lparr>debtors := (debtors s1)[idx_i s1 := debtor'],
                  creditors := (creditors s1)[idx_j s1 := creditor']\<rparr>;
          s3 = (if \<bar>eamount debtor'\<bar> < 0.01 then s2\<lparr>idx_i := idx_i s2 + 1\<rparr> else s2)
      in (if eamount creditor' < 0.01 then s3\<lparr>idx_j := idx_j s3 + 1\<rparr> else s3))"

text \<open>The \<open>while\<close> loop. \<open>None\<close> stands for a loop that never ends.\<close>

partial_function (option) settle_loop :: "settle_state \<Rightarrow> settle_state option" where
  "settle_loop s = (if running s then settle_loop (settle_step s) else Some s)"

declare settle_loop.simps [code]

definition settle_init :: "BalanceSheet \<Rightarrow> settle_state" where
  "settle_init b =
     sort_sides (foldl classify
       \<lparr>balances = b, debtors = [], creditors = [], idx_i = 0, idx_j = 0, transactions = []\<rparr> b)"

text \<open>The whole run, with the final values of all variables.\<close>

definition calculateMinimalTransactions_run :: "BalanceSheet \<Rightarrow> settle_state option" where
  "calculateMinimalTransactions_run b = settle_loop (settle_init b)"

definition calculateMinimalTransactions :: "BalanceSheet \<Rightarrow> Transaction list option" where
  "calculateMinimalTransactions b = map_option transactions (calculateMinimalTransactions_run b)"

text \<open>Vocabulary of the claims about the minimizer.\<close>

definition in_band :: "real \<Rightarrow> bool" where
  "in_band v \<longleftrightarrow> - 0.01 \<le> round2 v \<and> round2 v \<le> 0.01"

definition outside_band :: "BalanceSheet \<Rightarrow> nat" where
  "outside_band b = length (filter (\<lambda>kv. \<not> in_band (snd kv)) b)"






section \<open>calculateMinimalTransactions on IEEE doubles\<close>

text \<open>
  The definitions above take amounts as the real numbers they denote. A JavaScript
  \<open>number\<close> is an IEEE 754 double: every arithmetic result is rounded to the nearest
  double (ties to the even one), a result of magnitude \<open>2^1024 - 2^970\<close> or more becomes
  an infinity, and undefined results are NaN. This section repeats the function on that
  type. The sign of a zero is not kept: the function never divides by a zero.
\<close>

datatype number = Finite real | PosInfinity | NegInfinity | NotANumber

text \<open>Rounding a real to the grid of doubles around it.\<close>

definition ties_to_even :: "real \<Rightarrow> int" where
  "ties_to_even z =
     (let f = \<lfloor>z\<rfloor>
      in if z - of_int f < 1 / 2 then f
         else if 1 / 2 < z - of_int f then f + 1
         else if even f then f else f + 1)"

definition quantum :: "real \<Rightarrow> real" where
  "quantum x = 2 powr (of_int (max \<lfloor>log 2 \<bar>x\<bar>\<rfloor> (- 1022)) - 52)"

definition to_double :: "real \<Rightarrow> number" where
  "to_double x =
     (if x = 0 then Finite 0
      else if 2 ^ 1024 - 2 ^ 970 \<le> \<bar>x\<bar> then (if 0 < x then PosInfinity else NegInfinity)
      else Finite (of_int (ties_to_even (x / quantum x)) * quantum x))"

fun js_neg :: "number \<Rightarrow> number" where
  "js_neg (Finite x) = Finite (- x)"
| "js_neg PosInfinity = NegInfinity"
| "js_neg NegInfinity = PosInfinity"
| "js_neg NotANumber = NotANumber"

fun js_add :: "number \<Rightarrow> number \<Rightarrow> number" where
  "js_add NotANumber _ = NotANumber"
| "js_add _ NotANumber = NotANumber"
| "js_add (Finite x) (Finite y) = to_double (x + y)"
| "js_add PosInfinity NegInfinity = NotANumber"
| "js_add NegInfinity PosInfinity = NotANumber"
| "js_add PosInfinity _ = PosInfinity"
| "js_add NegInfinity _ = NegInfinity"
| "js_add _ PosInfinity = PosInfinity"
| "js_add _ NegInfinity = NegInfinity"

definition js_sub :: "number \<Rightarrow> number \<Rightarrow> number" where
  "js_sub a b = js_add a (js_neg b)"

text \<open>The sign of a number that is not NaN: -1, 0 or 1.\<close>

fun js_sign :: "number \<Rightarrow> int" where
  "js_sign (Finite x) = (if 0 < x then 1 else if x < 0 then - 1 else 0)"
| "js_sign PosInfinity = 1"
| "js_sign NegInfinity = - 1"
| "js_sign NotANumber = 0"

fun js_mul :: "number \<Rightarrow> number \<Rightarrow> number" where
  "js_mul NotANumber _ = NotANumber"
| "js_mul _ NotANumber = NotANumber"
| "js_mul (Finite x) (Finite y) = to_double (x * y)"
| "js_mul a b =
     (if js_sign a * js_sign b = 0 then NotANumber
      else if 0 < js_sign a * js_sign b then PosInfinity else NegInfinity)"

fun js_div :: "number \<Rightarrow> number \<Rightarrow> number" where
  "js_div NotANumber _ = NotANumber"
| "js_div _ NotANumber = NotANumber"
| "js_div (Finite x) (Finite y) =
     (if y = 0 then (if x = 0 then NotANumber else if 0 < x then PosInfinity else NegInfinity)
      else to_double (x / y))"
| "js_div (Finite x) _ = Finite 0"
| "js_div a (Finite y) = (if 0 \<le> y then a else js_neg a)"
| "js_div _ _ = NotANumber"

fun js_lt :: "number \<Rightarrow> number \<Rightarrow> bool" where
  "js_lt NotANumber _ = False"
| "js_lt _ NotANumber = False"
| "js_lt (Finite x) (Finite y) = (x < y)"
| "js_lt _ NegInfinity = False"
| "js_lt NegInfinity _ = True"
| "js_lt PosInfinity _ = False"
| "js_lt _ PosInfinity = True"

fun Math_abs :: "number \<Rightarrow> number" where
  "Math_abs (Finite x) = Finite \<bar>x\<bar>"
| "Math_abs NotANumber = NotANumber"
| "Math_abs _ = PosInfinity"

definition Math_min :: "number \<Rightarrow> number \<Rightarrow> number" where
  "Math_min a b =
     (if a = NotANumber \<or> b = NotANumber then NotANumber else if js_lt b a then b else a)"

text \<open>\<open>Math.round\<close> is exact: the nearest integer of a double is a double.\<close>

fun Math_round_d :: "number \<Rightarrow> number" where
  "Math_round_d (Finite x) = Finite (of_int (Math_round x))"
| "Math_round_d a = a"

text \<open>The literal \<open>0.01\<close> is the double nearest to one hundredth; 100 and 0 are doubles.\<close>

definition hundredth :: number where
  "hundredth = to_double (1 / 100)"

definition round_d :: "number \<Rightarrow> number" where
  "round_d num = js_div (Math_round_d (js_mul num (Finite 100))) (Finite 100)"

record entry_d =
  eid_d :: string
  eamount_d :: number

record Transaction_d =
  from_d :: string
  to_d :: string
  amount_d :: number

record settle_state_d =
  balances_d :: "(string \<times> number) list"
  debtors_d :: "entry_d list"
  creditors_d :: "entry_d list"
  idx_i_d :: nat
  idx_j_d :: nat
  transactions_d :: "Transaction_d list"

definition classify_d :: "settle_state_d \<Rightarrow> string \<times> number \<Rightarrow> settle_state_d" where
  "classify_d s kv =
     (let val = round_d (snd kv);
          s1 = (if js_lt val (js_neg hundredth)
                then s\<lparr>debtors_d := debtors_d s @ [\<lparr>eid_d = fst kv, eamount_d = val\<rparr>]\<rparr> else s)
      in (if js_lt hundredth val
          then s1\<lparr>creditors_d := creditors_d s1 @ [\<lparr>eid_d = fst kv, eamount_d = val\<rparr>]\<rparr>
          else s1))"

text \<open>A stable sort by a comparison function: an element moves behind another one only
  if the comparison of the two is positive; NaN counts as zero.\<close>

fun insert_by :: "('a \<Rightarrow> 'a \<Rightarrow> number) \<Rightarrow> 'a \<Rightarrow> 'a list \<Rightarrow> 'a list" where
  "insert_by cmp x [] = [x]"
| "insert_by cmp x (y # ys) =
     (if js_lt (Finite 0) (cmp x y) then y # insert_by cmp x ys else x # y # ys)"

definition sort_by :: "('a \<Rightarrow> 'a \<Rightarrow> number) \<Rightarrow> 'a list \<Rightarrow> 'a list" where
  "sort_by cmp xs = foldr (insert_by cmp) xs []"

definition sort_sides_d :: "settle_state_d \<Rightarrow> settle_state_d" where
  "sort_sides_d s =
     s\<lparr>debtors_d := sort_by (\<lambda>a b. js_sub (eamount_d a) (eamount_d b)) (debtors_d s),
       creditors_d := sort_by (\<lambda>a b. js_sub (eamount_d b) (eamount_d a)) (creditors_d s)\<rparr>"

definition running_d :: "settle_state_d \<Rightarrow> bool" where
  "running_d s \<longleftrightarrow> idx_i_d s < length (debtors_d s) \<and> idx_j_d s < length (creditors_d s)"

definition settle_step_d :: "settle_state_d \<Rightarrow> settle_state_d" where
  "settle_step_d s =
     (let debtor = debtors_d s ! idx_i_d s;
          creditor = creditors_d s ! idx_j_d s;
          amount = round_d (Math_min (Math_abs (eamount_d debtor)) (eamount_d creditor));
          roundedAmount = Math_round_d amount;
          s1 = (if js_lt (Finite 0) roundedAmount
                then s\<lparr>transactions_d := transactions_d s @
                        [\<lparr>from_d = eid_d debtor, to_d = eid_d creditor,
                          amount_d = roundedAmount\<rparr>]\<rparr>
                else s);
          debtor' = debtor\<lparr>eamount_d := round_d (js_add (eamount_d debtor) amount)\<rparr>;
          creditor' = creditor\<lparr>eamount_d := round_d (js_sub (eamount_d creditor) amount)\<rparr>;
          s2 = s1\<lparr>debtors_d := (debtors_d s1)[idx_i_d s1 := debtor'],
                  creditors_d := (creditors_d s1)[idx_j_d s1 := creditor']\<rparr>;
          s3 = (if js_lt (Math_abs (eamount_d debtor')) hundredth
                then s2\<lparr>idx_i_d := idx_i_d s2 + 1\<rparr> else s2)
      in (if js_lt (eamount_d creditor') hundredth then s3\<lparr>idx_j_d := idx_j_d s3 + 1\<rparr> else s3))"

partial_function (option) settle_loop_d :: "settle_state_d \<Rightarrow> settle_state_d option" where
  "settle_loop_d s = (if running_d s then settle_loop_d (settle_step_d s) else Some s)"

declare settle_loop_d.simps [code]

definition settle_init_d :: "(string \<times> number) list \<Rightarrow> settle_state_d" where
  "settle_init_d b =
     sort_sides_d (foldl classify_d
       \<lparr>balances_d = b, debtors_d = [], creditors_d = [], idx_i_d = 0, idx_j_d = 0,
        transactions_d = []\<rparr> b)"

definition calculateMinimalTransactions_d :: "(string \<times> number) list \<Rightarrow> Transaction_d list option" where
  "calculateMinimalTransactions_d b = map_option transactions_d (settle_loop_d (settle_init_d b))"

text \<open>Two balances of \<open>2^1020\<close> (about \<open>1.1e307\<close>), one owed and one owing; both are
  doubles.\<close>

definition huge :: real where
  "huge = 2 ^ 1020"

definition huge_sheet :: "(string \<times> number) list" where
  "huge_sheet = [(''a'', Finite huge), (''b'', Finite (- huge))]"

text \<open>The state from which that run does not move: both open amounts are NaN.\<close>

definition stuck :: settle_state_d where
  "stuck =
     \<lparr>balances_d = huge_sheet,
      debtors_d = [\<lparr>eid_d = ''b'', eamount_d = NotANumber\<rparr>],
      creditors_d = [\<lparr>eid_d = ''a'', eamount_d = NotANumber\<rparr>],
      idx_i_d = 0, idx_j_d = 0,
      transactions_d = [\<lparr>from_d = ''b'', to_d = ''a'', amount_d = PosInfinity\<rparr>]\<rparr>"

section \<open>getDetailedRawDebts\<close>

text \<open>
  The debt matrix is an object of objects. Reading a property of a missing row is reading
  a property of \<open>undefined\<close>, which throws a TypeError. A missing cell reads as
  \<open>undefined\<close>, and arithmetic on \<open>undefined\<close> yields NaN; this is the only place
  where NaN arises from well-formed numbers, so the cells carry it explicitly.
  Ids are assumed not to be names of properties inherited from \<open>Object.prototype\<close>.
\<close>

datatype error = TypeError

datatype cell = Num real | NaN

type_synonym row = "string \<rightharpoonup> cell"
type_synonym matrix = "string \<rightharpoonup> row"

fun cell_add :: "cell \<Rightarrow> real \<Rightarrow> cell" where
  "cell_add (Num v) x = Num (v + x)"
| "cell_add NaN x = NaN"

fun cell_sub :: "cell \<Rightarrow> cell \<Rightarrow> cell" where
  "cell_sub (Num v) (Num w) = Num (v - w)"
| "cell_sub _ _ = NaN"

text \<open>A missing cell, coerced to a number by the arithmetic that follows the read.\<close>

definition as_number :: "cell option \<Rightarrow> cell" where
  "as_number c = (case c of None \<Rightarrow> NaN | Some v \<Rightarrow> v)"

text \<open>
  A line of the result before it is formatted: who owes whom, and the rounded amount.
  The source pushes the formatted string at once; the model keeps the three parts and
  formats at the end, so that claims can speak about the pair a line belongs to.
\<close>

record debt_line =
  ower :: Member
  owed :: Member
  line_amount :: int

text \<open>
  The objects the function can reach: its two arguments and the local objects
  \<open>debtMatrix\<close>, \<open>results\<close> and \<open>processed\<close>.
\<close>

record raw_state =
  rd_expenses :: "Expense list"
  rd_members :: "Member list"
  debtMatrix :: matrix
  results :: "debt_line list"
  processed :: "string set"

text \<open>Running a callback over an array. A callback returns the state it leaves behind
  and the exception it threw, if any; an exception leaves the iteration at once.\<close>

fun forEach :: "('s \<Rightarrow> 'a \<Rightarrow> 's \<times> error option) \<Rightarrow> 's \<Rightarrow> 'a list \<Rightarrow> 's \<times> error option" where
  "forEach f s [] = (s, None)"
| "forEach f s (x # xs) =
     (case f s x of (s', Some e) \<Rightarrow> (s', Some e) | (s', None) \<Rightarrow> forEach f s' xs)"

text \<open>The first loop assigns a fresh row to every member id and fills it with zeros;
  the row it reads is the one it has just assigned, so it cannot throw.\<close>

definition zero_row :: "Member list \<Rightarrow> row" where
  "zero_row members = foldl (\<lambda>r target. r(id' target \<mapsto> Num 0)) Map.empty members"

definition init_matrix :: "Member list \<Rightarrow> matrix" where
  "init_matrix members = foldl (\<lambda>dm m. dm(id' m \<mapsto> zero_row members)) Map.empty members"

definition totalPaid :: "Expense \<Rightarrow> real" where
  "totalPaid ex = foldl (\<lambda>sum p. sum + amount p) 0 (paidBy ex)"

text \<open>\<open>debtMatrix[s][p] += debtChunk\<close>\<close>

definition add_debt :: "matrix \<Rightarrow> string \<Rightarrow> string \<Rightarrow> real \<Rightarrow> error + matrix" where
  "add_debt dm s p debtChunk =
     (case dm s of
        None \<Rightarrow> Inl TypeError
      | Some r \<Rightarrow> Inr (dm(s \<mapsto> r(p \<mapsto> cell_add (as_number (r p)) debtChunk))))"

text \<open>The body of the inner callback, for one splitter and one payer of an expense.
  The chunk is the real number \<open>splitter.amount * (payer.amount / totalPaid)\<close>; the code
  rounds the quotient and the product to doubles.\<close>

definition pair_debt :: "real \<Rightarrow> SplitDetail \<Rightarrow> raw_state \<Rightarrow> SplitDetail \<Rightarrow> raw_state \<times> error option" where
  "pair_debt paid splitter st payer =
     (let debtChunk = amount splitter * (amount payer / paid)
      in if memberId splitter \<noteq> memberId payer
         then (case add_debt (debtMatrix st) (memberId splitter) (memberId payer) debtChunk of
                 Inl e \<Rightarrow> (st, Some e)
               | Inr dm \<Rightarrow> (st\<lparr>debtMatrix := dm\<rparr>, None))
         else (st, None))"

definition expense_debts :: "raw_state \<Rightarrow> Expense \<Rightarrow> raw_state \<times> error option" where
  "expense_debts st ex =
     (if totalPaid ex = 0 then (st, None)
      else forEach (\<lambda>st' splitter. forEach (pair_debt (totalPaid ex) splitter) st' (paidBy ex))
             st (splitAmong ex))"

text \<open>\<open>[a.id, b.id].sort().join('-')\<close>: the default sort compares strings
  lexicographically by code unit.\<close>

definition pair_key :: "string \<Rightarrow> string \<Rightarrow> string" where
  "pair_key x y = (if y < x then y @ ''-'' @ x else x @ ''-'' @ y)"

definition read_cell :: "matrix \<Rightarrow> string \<Rightarrow> string \<Rightarrow> error + cell" where
  "read_cell dm x y = (case dm x of None \<Rightarrow> Inl TypeError | Some r \<Rightarrow> Inr (as_number (r y)))"

text \<open>Comparisons with NaN are false, so NaN produces no line.\<close>

definition push_line :: "raw_state \<Rightarrow> Member \<Rightarrow> Member \<Rightarrow> cell \<Rightarrow> raw_state" where
  "push_line st a b net =
     (case net of
        NaN \<Rightarrow> st
      | Num n \<Rightarrow>
          if n > 0.01
          then st\<lparr>results := results st @ [\<lparr>ower = a, owed = b, line_amount = Math_round n\<rparr>]\<rparr>
          else if n < - 0.01
          then st\<lparr>results := results st @ [\<lparr>ower = b, owed = a, line_amount = Math_round \<bar>n\<bar>\<rparr>]\<rparr>
          else st)"

text \<open>The body of the inner callback of the consolidation, for the members a and b.\<close>

definition visit_pair :: "Member \<Rightarrow> raw_state \<Rightarrow> Member \<Rightarrow> raw_state \<times> error option" where
  "visit_pair a st b =
     (if id' a = id' b then (st, None)
      else let key = pair_key (id' a) (id' b)
           in if key \<in> processed st then (st, None)
              else case read_cell (debtMatrix st) (id' a) (id' b) of
                     Inl e \<Rightarrow> (st, Some e)
                   | Inr aOwesB \<Rightarrow>
                       (case read_cell (debtMatrix st) (id' b) (id' a) of
                          Inl e \<Rightarrow> (st, Some e)
                        | Inr bOwesA \<Rightarrow>
                            ((push_line st a b (cell_sub aOwesB bOwesA))
                               \<lparr>processed := insert key (processed st)\<rparr>, None)))"

text \<open>The three phases: fill the matrix with zeros, add the debts of every expense,
  consolidate every pair of members.\<close>

definition build_matrix :: "raw_state \<Rightarrow> raw_state \<times> error option" where
  "build_matrix st =
     forEach expense_debts (st\<lparr>debtMatrix := init_matrix (rd_members st)\<rparr>) (rd_expenses st)"

definition consolidate :: "raw_state \<Rightarrow> raw_state \<times> error option" where
  "consolidate st = forEach (\<lambda>st' a. forEach (visit_pair a) st' (rd_members st')) st (rd_members st)"

definition getDetailedRawDebts_run :: "Expense list \<Rightarrow> Member list \<Rightarrow> raw_state \<times> error option" where
  "getDetailedRawDebts_run expenses members =
     (case build_matrix \<lparr>rd_expenses = expenses, rd_members = members, debtMatrix = Map.empty,
                         results = [], processed = {}\<rparr> of
        (st, Some e) \<Rightarrow> (st, Some e)
      | (st, None) \<Rightarrow> consolidate st)"

text \<open>The lines of a run that returns, before formatting.\<close>

definition raw_debt_lines :: "Expense list \<Rightarrow> Member list \<Rightarrow> error + debt_line list" where
  "raw_debt_lines expenses members =
     (case getDetailedRawDebts_run expenses members of
        (st, Some e) \<Rightarrow> Inl e
      | (st, None) \<Rightarrow> Inr (results st))"

text \<open>Decimal digits of an integer, as JavaScript prints an integer-valued number
  below \<open>10^21\<close>.\<close>

fun show_nat :: "nat \<Rightarrow> string" where
  "show_nat n = (if n < 10 then [''0123456789'' ! n]
                 else show_nat (n div 10) @ [''0123456789'' ! (n mod 10)])"

declare show_nat.simps [simp del]

definition show_int :: "int \<Rightarrow> string" where
  "show_int k = (if k < 0 then ''-'' @ show_nat (nat (- k)) else show_nat (nat k))"

text \<open>The template string; the CJK character between the names is U+6B20, written here
  as its three UTF-8 bytes.\<close>

definition format_line :: "debt_line \<Rightarrow> string" where
  "format_line l =
     name (ower l) @ '' '' @ [CHR 0xE6, CHR 0xAC, CHR 0xA0] @ '' '' @ name (owed l) @
     '' $'' @ show_int (line_amount l)"

definition getDetailedRawDebts :: "Expense list \<Rightarrow> Member list \<Rightarrow> error + string list" where
  "getDetailedRawDebts expenses members =
     (case raw_debt_lines expenses members of
        Inl e \<Rightarrow> Inl e
      | Inr ls \<Rightarrow> Inr (map format_line ls))"

text \<open>The unordered pair of ids a line belongs to.\<close>

definition line_pair :: "debt_line \<Rightarrow> string set" where
  "line_pair l = {id' (ower l), id' (owed l)}"

text \<open>What one pair of a debtor share and a payer share adds to the cell in row x and
  column y: its proportional chunk if it is the pair of x and y and the two ids differ,
  and nothing otherwise.\<close>

definition pair_chunk :: "real \<Rightarrow> string \<Rightarrow> string \<Rightarrow> SplitDetail \<Rightarrow> SplitDetail \<Rightarrow> real" where
  "pair_chunk paid x y splitter payer =
     (if memberId splitter = x \<and> memberId payer = y \<and> memberId splitter \<noteq> memberId payer
      then amount splitter * amount payer / paid else 0)"

text \<open>What an expense adds to that cell: nothing if nothing was paid, and the chunks of
  all its pairs otherwise.\<close>

definition expense_chunks :: "string \<Rightarrow> string \<Rightarrow> Expense \<Rightarrow> real" where
  "expense_chunks x y ex =
     (if totalPaid ex = 0 then 0
      else sum_list (map (\<lambda>splitter.
             sum_list (map (pair_chunk (totalPaid ex) x y splitter) (paidBy ex)))
             (splitAmong ex)))"

definition raw_debt :: "Expense list \<Rightarrow> string \<Rightarrow> string \<Rightarrow> real" where
  "raw_debt expenses x y = sum_list (map (expense_chunks x y) expenses)"

definition cell_at :: "matrix \<Rightarrow> string \<Rightarrow> string \<Rightarrow> cell option" where
  "cell_at dm x y = (case dm x of None \<Rightarrow> None | Some r \<Rightarrow> r y)"

section \<open>Example inputs\<close>

definition alice :: Member where "alice = \<lparr>id' = ''a'', name = ''Alice''\<rparr>"
definition bob :: Member where "bob = \<lparr>id' = ''b'', name = ''Bob''\<rparr>"
definition carol :: Member where "carol = \<lparr>id' = ''c'', name = ''Carol''\<rparr>"

definition share :: "string \<Rightarrow> real \<Rightarrow> SplitDetail" where
  "share k v = \<lparr>memberId = k, amount = v\<rparr>"

text \<open>The first scenario of the specification: a pays 90, split equally among a, b, c.\<close>

definition dinner :: Expense where
  "dinner = \<lparr>totalAmount = 90, paidBy = [share ''a'' 90],
             splitAmong = [share ''a'' 30, share ''b'' 30, share ''c'' 30]\<rparr>"

text \<open>An expense whose debtor share names an id \<open>x\<close> that is no member.\<close>

definition stray :: Expense where
  "stray = \<lparr>totalAmount = 10, paidBy = [share ''a'' 10], splitAmong = [share ''x'' 10]\<rparr>"

text \<open>Two opposite debts between a and b: 100 one way, 30 the other.\<close>

definition loan :: Expense where
  "loan = \<lparr>totalAmount = 100, paidBy = [share ''b'' 100], splitAmong = [share ''a'' 100]\<rparr>"

definition taxi :: Expense where
  "taxi = \<lparr>totalAmount = 30, paidBy = [share ''a'' 30], splitAmong = [share ''b'' 30]\<rparr>"

text \<open>The balance sheet of the first scenario, and the payments that settle it.\<close>

definition sheet3 :: BalanceSheet where
  "sheet3 = [(''a'', 60), (''b'', - 30), (''c'', - 30)]"

definition payments3 :: "Transaction list" where
  "payments3 = [\<lparr>from_id = ''b'', to_id = ''a'', tx_amount = 30\<rparr>,
                \<lparr>from_id = ''c'', to_id = ''a'', tx_amount = 30\<rparr>]"

text \<open>An expense whose payer share names an id \<open>x\<close> that is no member.\<close>

definition ghost :: Expense where
  "ghost = \<lparr>totalAmount = 10, paidBy = [share ''x'' 10], splitAmong = [share ''a'' 10]\<rparr>"

text \<open>The line that consolidates the loan and the taxi: a owes b 70.\<close>

definition line70 :: string where
  "line70 = ''Alice '' @ [CHR 0xE6, CHR 0xAC, CHR 0xA0] @ '' Bob $70''"





section \<open>Invariant of the matching loop\<close>

text \<open>Amounts that are a whole number of hundredths; \<^const>\<open>round2\<close> produces them and
  leaves them as they are.\<close>

definition cents :: "real \<Rightarrow> bool" where
  "cents x \<longleftrightarrow> (\<exists>k::int. x = of_int k / 100)"

text \<open>From the current index on, every debtor still owes at least one hundredth and every
  creditor is still owed at least one hundredth.\<close>

definition owing :: "entry \<Rightarrow> bool" where
  "owing d \<longleftrightarrow> cents (eamount d) \<and> eamount d \<le> - 0.01"

definition due :: "entry \<Rightarrow> bool" where
  "due c \<longleftrightarrow> cents (eamount c) \<and> 0.01 \<le> eamount c"

definition settle_inv :: "settle_state \<Rightarrow> bool" where
  "settle_inv s \<longleftrightarrow>
     idx_i s \<le> length (debtors s) \<and> idx_j s \<le> length (creditors s) \<and>
     (\<forall>k. idx_i s \<le> k \<and> k < length (debtors s) \<longrightarrow> owing (debtors s ! k)) \<and>
     (\<forall>k. idx_j s \<le> k \<and> k < length (creditors s) \<longrightarrow> due (creditors s ! k))"

text \<open>The number of entries the two indices have not passed yet.\<close>

definition pending :: "settle_state \<Rightarrow> nat" where
  "pending s = (length (debtors s) - idx_i s) + (length (creditors s) - idx_j s)"

text \<open>The amount settled by an iteration when the invariant holds.\<close>

definition settled :: "settle_state \<Rightarrow> real" where
  "settled s = min (- eamount (debtors s ! idx_i s)) (eamount (creditors s ! idx_j s))"

text \<open>The two arrays before sorting, as the callback over the entries builds them.\<close>

definition to_entry :: "string \<times> real \<Rightarrow> entry" where
  "to_entry kv = \<lparr>eid = fst kv, eamount = round2 (snd kv)\<rparr>"

definition debtor_entries :: "BalanceSheet \<Rightarrow> entry list" where
  "debtor_entries b = map to_entry (filter (\<lambda>kv. round2 (snd kv) < - 0.01) b)"

definition creditor_entries :: "BalanceSheet \<Rightarrow> entry list" where
  "creditor_entries b = map to_entry (filter (\<lambda>kv. round2 (snd kv) > 0.01) b)"

text \<open>The states the loop of a run passes through, at the head of an iteration.\<close>

inductive reachable :: "BalanceSheet \<Rightarrow> settle_state \<Rightarrow> bool" for b where
  start: "reachable b (settle_init b)"
| iterate: "reachable b s \<Longrightarrow> running s \<Longrightarrow> reachable b (settle_step s)"


text \<open>Some balance rounds to one half or more below zero, and some to one half or more
  above zero.\<close>

definition half_on_both_sides :: "BalanceSheet \<Rightarrow> bool" where
  "half_on_both_sides b \<longleftrightarrow>
     (\<exists>kv \<in> set b. round2 (snd kv) \<le> - 0.5) \<and> (\<exists>kv \<in> set b. 0.5 \<le> round2 (snd kv))"











section \<open>Vocabulary for the runs of getDetailedRawDebts\<close>

text \<open>The two arguments are what they were at the call.\<close>

definition same_args :: "Expense list \<Rightarrow> Member list \<Rightarrow> raw_state \<Rightarrow> bool" where
  "same_args es ms st \<longleftrightarrow> rd_expenses st = es \<and> rd_members st = ms"

text \<open>The cells of the rows and columns of M hold the numbers V.\<close>

definition cells_are :: "string set \<Rightarrow> (string \<Rightarrow> string \<Rightarrow> real) \<Rightarrow> matrix \<Rightarrow> bool" where
  "cells_are M V dm \<longleftrightarrow> (\<forall>x \<in> M. \<forall>y \<in> M. cell_at dm x y = Some (Num (V x y)))"

text \<open>The state of a call before its first loop.\<close>

definition raw_start :: "Expense list \<Rightarrow> Member list \<Rightarrow> raw_state" where
  "raw_start expenses members =
     \<lparr>rd_expenses = expenses, rd_members = members, debtMatrix = Map.empty,
      results = [], processed = {}\<rparr>"

text \<open>The state while the matrix is built: the arguments and the other local objects
  are as at the start, and the member cells hold V.\<close>

definition building :: "Expense list \<Rightarrow> Member list \<Rightarrow> (string \<Rightarrow> string \<Rightarrow> real) \<Rightarrow> raw_state \<Rightarrow> bool" where
  "building es ms V st \<longleftrightarrow>
     st\<lparr>debtMatrix := Map.empty\<rparr> = raw_start es ms \<and> cells_are (id' ` set ms) V (debtMatrix st)"

text \<open>The key under which the pair of a line is recorded, and the net debt between two
  ids as the consolidation computes it from the matrix.\<close>

definition line_key :: "debt_line \<Rightarrow> string" where
  "line_key l = pair_key (id' (ower l)) (id' (owed l))"

definition net_debt :: "matrix \<Rightarrow> string \<Rightarrow> string \<Rightarrow> cell" where
  "net_debt dm x y = cell_sub (as_number (cell_at dm x y)) (as_number (cell_at dm y x))"

text \<open>The state while the pairs are consolidated.\<close>

definition consolidating :: "Member list \<Rightarrow> matrix \<Rightarrow> raw_state \<Rightarrow> bool" where
  "consolidating ms dm st \<longleftrightarrow>
     rd_members st = ms \<and> debtMatrix st = dm \<and>
     distinct (map line_key (results st)) \<and>
     line_key ` set (results st) \<subseteq> processed st \<and>
     processed st \<subseteq> (\<lambda>B. Min B @ ''-'' @ Max B) ` {B. B \<subseteq> id' ` set ms \<and> card B = 2} \<and>
     (\<forall>l \<in> set (results st).
        \<exists>n. net_debt dm (id' (ower l)) (id' (owed l)) = Num n \<and> 0.01 < n)"

text \<open>While the matrix is built, the result and the set of keys are still empty.\<close>

definition untouched :: "Member list \<Rightarrow> raw_state \<Rightarrow> bool" where
  "untouched ms st \<longleftrightarrow> rd_members st = ms \<and> results st = [] \<and> processed st = {}"

section \<open>Properties of calculateBalances\<close>

lemma foldl_cb_members:
  "foldl (\<lambda>s m. s\<lparr>cb_balances := AList.update (id' m) 0 (cb_balances s)\<rparr>) s ms =
     s\<lparr>cb_balances := foldl (\<lambda>b m. AList.update (id' m) 0 b) (cb_balances s) ms\<rparr>"
  by (induction ms arbitrary: s) simp_all

lemma foldl_cb_expenses:
  "foldl (\<lambda>s e. s\<lparr>cb_balances := apply_expense (cb_balances s) e\<rparr>) s es =
     s\<lparr>cb_balances := foldl apply_expense (cb_balances s) es\<rparr>"
  by (induction es arbitrary: s) simp_all

lemma calculateBalances_run_eq:
  "calculateBalances_run es ms =
     \<lparr>cb_expenses = es, cb_members = ms, cb_balances = foldl apply_expense (init_balances ms) es\<rparr>"
  by (simp add: calculateBalances_run_def foldl_cb_members foldl_cb_expenses init_balances_def)

lemma calculateBalances_eq:
  "calculateBalances es ms = foldl apply_expense (init_balances ms) es"
  by (simp add: calculateBalances_def calculateBalances_run_eq)

lemmas ex_defs = dinner_def stray_def share_def alice_def bob_def carol_def loan_def taxi_def ghost_def
lemmas bal_defs = calculateBalances_def calculateBalances_run_def Let_def apply_expense_def credit_def debit_def get_or_zero_def

lemma get_or_zero_lookup:
  "get_or_zero b k = (case map_of b k of None \<Rightarrow> 0 | Some v \<Rightarrow> v)"
  by (simp add: get_or_zero_def split: option.splits)

lemma total_update:
  "sum_list (map snd (AList.update k (get_or_zero b k + a) b)) = sum_list (map snd b) + a"
  by (induction b) (auto simp: get_or_zero_lookup)

lemma total_credit: "sheet_total (credit b p) = sheet_total b + amount p"
  unfolding sheet_total_def credit_def by (rule total_update)

lemma total_debit: "sheet_total (debit b d) = sheet_total b - amount d"
  unfolding sheet_total_def debit_def using total_update [of "memberId d" b "- amount d"]
  by simp

lemma total_foldl_credit: "sheet_total (foldl credit b ps) = sheet_total b + share_total ps"
  by (induction ps arbitrary: b) (simp_all add: total_credit share_total_def)

lemma total_foldl_debit: "sheet_total (foldl debit b ds) = sheet_total b - share_total ds"
  by (induction ds arbitrary: b) (simp_all add: total_debit share_total_def)

lemma total_apply_expense:
  "sheet_total (apply_expense b e) =
     sheet_total b + share_total (paidBy e) - share_total (splitAmong e)"
  by (simp add: apply_expense_def total_foldl_credit total_foldl_debit)

lemma total_foldl_expenses:
  "\<forall>e \<in> set es. share_total (paidBy e) = share_total (splitAmong e) \<Longrightarrow>
     sheet_total (foldl apply_expense b es) = sheet_total b"
  by (induction es arbitrary: b) (simp_all add: total_apply_expense)

lemma update_zero_values:
  "snd ` set b \<subseteq> {0::real} \<Longrightarrow> snd ` set (AList.update k 0 b) \<subseteq> {0}"
  by (induction b) auto

lemma init_values:
  "snd ` set b0 \<subseteq> {0::real} \<Longrightarrow>
     snd ` set (foldl (\<lambda>b m. AList.update (id' m) 0 b) b0 ms) \<subseteq> {0}"
  by (induction ms arbitrary: b0) (simp_all add: update_zero_values)

lemma sum_list_zero_values: "set xs \<subseteq> {0::real} \<Longrightarrow> sum_list xs = 0"
  by (induction xs) auto

lemma total_init: "sheet_total (init_balances ms) = 0"
  unfolding sheet_total_def init_balances_def
  using init_values [of "[]" ms] by (intro sum_list_zero_values) simp

text \<open>
  Claim C5 (zero-sum invariant). For every member list and every expense list in which the
  payer shares of each expense add up to the same value as its debtor shares, the values of
  the balance sheet returned by \<open>calculateBalances\<close> add up to exactly 0.
\<close>

theorem calculateBalances_zero_sum:
  assumes "\<forall>e \<in> set expenses. share_total (paidBy e) = share_total (splitAmong e)"
  shows "sheet_total (calculateBalances expenses members) = 0"
  unfolding calculateBalances_eq using total_foldl_expenses [OF assms] total_init by simp

theorem calculateBalances_zero_sum_witness:
  "share_total (paidBy dinner) = share_total (splitAmong dinner) \<and>
   sheet_total (calculateBalances [dinner] [alice, bob, carol]) = 0"
  using calculateBalances_zero_sum [of "[dinner]" "[alice, bob, carol]"]
  by (simp add: share_total_def dinner_def share_def)

lemma keys_credit: "fst ` set (credit b p) = insert (memberId p) (fst ` set b)"
  by (simp add: credit_def dom_update)

lemma keys_debit: "fst ` set (debit b d) = insert (memberId d) (fst ` set b)"
  by (simp add: debit_def dom_update)

lemma keys_foldl_credit: "fst ` set (foldl credit b ps) = fst ` set b \<union> memberId ` set ps"
  by (induction ps arbitrary: b) (auto simp: keys_credit)

lemma keys_foldl_debit: "fst ` set (foldl debit b ds) = fst ` set b \<union> memberId ` set ds"
  by (induction ds arbitrary: b) (auto simp: keys_debit)

lemma keys_apply_expense:
  "fst ` set (apply_expense b e) =
     fst ` set b \<union> (memberId ` set (paidBy e) \<union> memberId ` set (splitAmong e))"
  by (simp add: apply_expense_def keys_foldl_credit keys_foldl_debit Un_assoc)

lemma keys_foldl_expenses:
  "fst ` set (foldl apply_expense b es) = fst ` set b \<union> share_ids es"
  by (induction es arbitrary: b) (auto simp: keys_apply_expense share_ids_def)

lemma keys_foldl_init:
  "fst ` set (foldl (\<lambda>b m. AList.update (id' m) 0 b) b0 ms) = fst ` set b0 \<union> id' ` set ms"
  by (induction ms arbitrary: b0) (auto simp: dom_update)

lemma keys_calculateBalances:
  "fst ` set (calculateBalances es ms) = id' ` set ms \<union> share_ids es"
  by (simp add: calculateBalances_eq init_balances_def keys_foldl_expenses keys_foldl_init)

lemma wf_credit: "wf_sheet b \<Longrightarrow> wf_sheet (credit b p)"
  by (simp add: wf_sheet_def credit_def distinct_update)

lemma wf_debit: "wf_sheet b \<Longrightarrow> wf_sheet (debit b p)"
  by (simp add: wf_sheet_def debit_def distinct_update)

lemma wf_foldl_credit: "wf_sheet b \<Longrightarrow> wf_sheet (foldl credit b ps)"
  by (induction ps arbitrary: b) (simp_all add: wf_credit)

lemma wf_foldl_debit: "wf_sheet b \<Longrightarrow> wf_sheet (foldl debit b ps)"
  by (induction ps arbitrary: b) (simp_all add: wf_debit)

lemma wf_foldl_expenses: "wf_sheet b \<Longrightarrow> wf_sheet (foldl apply_expense b es)"
  by (induction es arbitrary: b) (simp_all add: apply_expense_def wf_foldl_credit wf_foldl_debit)

lemma wf_foldl_init:
  "wf_sheet b0 \<Longrightarrow> wf_sheet (foldl (\<lambda>b m. AList.update (id' m) 0 b) b0 ms)"
  by (induction ms arbitrary: b0) (simp_all add: wf_sheet_def distinct_update)

lemma wf_calculateBalances: "wf_sheet (calculateBalances es ms)"
  unfolding calculateBalances_eq init_balances_def
  by (intro wf_foldl_expenses wf_foldl_init) (simp add: wf_sheet_def)

lemma get_credit:
  "get_or_zero (credit b p) k = get_or_zero b k + (if memberId p = k then amount p else 0)"
  by (simp add: credit_def get_or_zero_lookup update_conv')

lemma get_debit:
  "get_or_zero (debit b p) k = get_or_zero b k - (if memberId p = k then amount p else 0)"
  by (simp add: debit_def get_or_zero_lookup update_conv')

lemma get_foldl_credit: "get_or_zero (foldl credit b ps) k = get_or_zero b k + shares_of k ps"
  by (induction ps arbitrary: b) (simp_all add: get_credit shares_of_def)

lemma get_foldl_debit: "get_or_zero (foldl debit b ps) k = get_or_zero b k - shares_of k ps"
  by (induction ps arbitrary: b) (simp_all add: get_debit shares_of_def)

lemma get_foldl_expenses:
  "get_or_zero (foldl apply_expense b es) k = get_or_zero b k + net_of k es"
  by (induction es arbitrary: b)
     (simp_all add: apply_expense_def get_foldl_credit get_foldl_debit net_of_def)

lemma get_init: "get_or_zero (init_balances ms) k = 0"
proof (cases "map_of (init_balances ms) k")
  case None
  then show ?thesis by (simp add: get_or_zero_lookup)
next
  case (Some v)
  then have "(k, v) \<in> set (init_balances ms)" by (rule map_of_SomeD)
  then have "v \<in> snd ` set (init_balances ms)" by force
  with init_values [of "[]" ms] have "v = 0" by (auto simp: init_balances_def)
  with Some show ?thesis by (simp add: get_or_zero_lookup)
qed

lemma get_calculateBalances: "get_or_zero (calculateBalances es ms) k = net_of k es"
  by (simp add: calculateBalances_eq get_foldl_expenses get_init)

lemma lookup_calculateBalances:
  assumes "k \<in> id' ` set ms \<union> share_ids es"
  shows "map_of (calculateBalances es ms) k = Some (net_of k es)"
proof -
  from assms have "k \<in> fst ` set (calculateBalances es ms)"
    by (simp add: keys_calculateBalances)
  then obtain v where v: "map_of (calculateBalances es ms) k = Some v"
    by (metis domD dom_map_of_conv_image_fst)
  with get_calculateBalances [of es ms k] show ?thesis
    by (simp add: get_or_zero_lookup)
qed

text \<open>
  Claim C1, as the code has it. The claim says that the sheet holds keys for members only
  and that a share of an id absent from the member list is ignored. For ids that are not
  names of properties of \<open>Object.prototype\<close>, the code reads a missing key as 0 and
  then assigns, which creates the key: the sheet holds exactly the member ids and the ids
  of all shares, pairwise distinct, and under exact arithmetic the balance of each of
  them, member or not, is what it paid minus what it owes.
\<close>

theorem calculateBalances_keeps_unknown_ids:
  assumes "plain_ids expenses members"
  shows "fst ` set (calculateBalances expenses members) = id' ` set members \<union> share_ids expenses
   \<and> wf_sheet (calculateBalances expenses members)
   \<and> (\<forall>k \<in> id' ` set members \<union> share_ids expenses.
         map_of (calculateBalances expenses members) k = Some (net_of k expenses))"
  using keys_calculateBalances wf_calculateBalances lookup_calculateBalances by blast

theorem calculateBalances_keeps_unknown_ids_witness:
  "plain_ids [stray] [alice, bob, carol] \<and>
   ''x'' \<in> id' ` set [alice, bob, carol] \<union> share_ids [stray] \<and>
   map_of (calculateBalances [stray] [alice, bob, carol]) ''x'' = Some (net_of ''x'' [stray])"
proof -
  have p: "plain_ids [stray] [alice, bob, carol]"
    by (simp add: plain_ids_def share_ids_def inherited_names_def ex_defs)
  from calculateBalances_keeps_unknown_ids [OF p] p show ?thesis
    by (simp add: share_ids_def stray_def share_def)
qed

text \<open>The claim as stated fails: the id \<open>x\<close> is no member, and yet the sheet has an entry for it.\<close>

theorem calculateBalances_unknown_id_counterexample:
  "''x'' \<notin> id' ` set [alice, bob, carol] \<and>
   map_of (calculateBalances [stray] [alice, bob, carol]) ''x'' = Some (- 10)"
  by (simp add: bal_defs stray_def share_def alice_def bob_def carol_def)

section \<open>Properties of calculateMinimalTransactions\<close>

subsection \<open>Hundredths\<close>

lemma Math_round_of_int: "Math_round (of_int k) = k"
  by (simp add: Math_round_def)

lemma round2_cents: "cents x \<Longrightarrow> round2 x = x"
  by (auto simp: cents_def round2_def Math_round_of_int)

lemma cents_round2: "cents (round2 x)"
  by (auto simp: cents_def round2_def)

lemma cents_0: "cents 0"
  unfolding cents_def by (rule exI [of _ 0]) simp

lemma cents_add: "cents x \<Longrightarrow> cents y \<Longrightarrow> cents (x + y)"
  unfolding cents_def
proof (elim exE)
  fix k l :: int
  assume "x = of_int k / 100" "y = of_int l / 100"
  then have "x + y = of_int (k + l) / 100" by (simp add: add_divide_distrib)
  then show "\<exists>m::int. x + y = of_int m / 100" ..
qed

lemma cents_minus: "cents x \<Longrightarrow> cents (- x)"
  unfolding cents_def
proof (elim exE)
  fix k :: int
  assume "x = of_int k / 100"
  then have "- x = of_int (- k) / 100" by simp
  then show "\<exists>m::int. - x = of_int m / 100" ..
qed

lemma cents_diff: "cents x \<Longrightarrow> cents y \<Longrightarrow> cents (x - y)"
  using cents_add [of x "- y"] cents_minus [of y] by simp

lemma cents_pos: "cents x \<Longrightarrow> 0 < x \<Longrightarrow> 0.01 \<le> x"
  unfolding cents_def
proof (elim exE)
  fix k :: int
  assume x: "x = of_int k / 100" and "0 < x"
  then have "0 < k" by simp
  then have "(1::real) \<le> of_int k" by linarith
  with x show "0.01 \<le> x" by simp
qed

lemma cents_neg: "cents x \<Longrightarrow> x < 0 \<Longrightarrow> x \<le> - 0.01"
  using cents_pos [of "- x"] cents_minus [of x] by simp

subsection \<open>One iteration\<close>

lemma step_balances: "balances (settle_step s) = balances s"
  by (simp add: settle_step_def Let_def)

lemma step_length_debtors: "length (debtors (settle_step s)) = length (debtors s)"
  by (simp add: settle_step_def Let_def)

lemma step_length_creditors: "length (creditors (settle_step s)) = length (creditors s)"
  by (simp add: settle_step_def Let_def)

lemma map_eid_update: "map eid (xs[n := (xs ! n)\<lparr>eamount := v\<rparr>]) = map eid xs"
  by (cases "n < length xs") (simp_all add: map_update list_update_same_conv list_update_beyond)

lemma step_ids_debtors: "map eid (debtors (settle_step s)) = map eid (debtors s)"
  by (simp add: settle_step_def Let_def map_eid_update)

lemma step_ids_creditors: "map eid (creditors (settle_step s)) = map eid (creditors s)"
  by (simp add: settle_step_def Let_def map_eid_update)

text \<open>What an iteration does when the invariant holds: the rounding helper changes
  nothing, the settled amount is the smaller of the two open amounts, and the side that
  reaches zero is passed.\<close>

lemma inv_current:
  assumes "settle_inv s" "running s"
  shows "owing (debtors s ! idx_i s)" "due (creditors s ! idx_j s)"
proof -
  from assms have i: "idx_i s < length (debtors s)" and j: "idx_j s < length (creditors s)"
    by (simp_all add: running_def)
  with assms(1) show "owing (debtors s ! idx_i s)" by (simp add: settle_inv_def)
  from j assms(1) show "due (creditors s ! idx_j s)" by (simp add: settle_inv_def)
qed

lemma settled_facts:
  assumes "settle_inv s" "running s"
  shows "cents (settled s)" "0.01 \<le> settled s"
    "settled s \<le> - eamount (debtors s ! idx_i s)" "settled s \<le> eamount (creditors s ! idx_j s)"
    "round2 (min \<bar>eamount (debtors s ! idx_i s)\<bar> (eamount (creditors s ! idx_j s))) = settled s"
proof -
  from inv_current [OF assms] have d: "cents (eamount (debtors s ! idx_i s))"
      "eamount (debtors s ! idx_i s) \<le> - 0.01"
    and c: "cents (eamount (creditors s ! idx_j s))" "0.01 \<le> eamount (creditors s ! idx_j s)"
    by (simp_all add: owing_def due_def)
  show 1: "cents (settled s)"
    unfolding settled_def min_def using d(1) c(1) by (simp add: cents_minus)
  from d(2) c(2) show "0.01 \<le> settled s" by (simp add: settled_def)
  show "settled s \<le> - eamount (debtors s ! idx_i s)" by (simp add: settled_def)
  show "settled s \<le> eamount (creditors s ! idx_j s)" by (simp add: settled_def)
  from d(2) have "\<bar>eamount (debtors s ! idx_i s)\<bar> = - eamount (debtors s ! idx_i s)" by simp
  then have "min \<bar>eamount (debtors s ! idx_i s)\<bar> (eamount (creditors s ! idx_j s)) = settled s"
    by (simp add: settled_def)
  with 1 show "round2 (min \<bar>eamount (debtors s ! idx_i s)\<bar> (eamount (creditors s ! idx_j s))) = settled s"
    by (simp add: round2_cents)
qed


lemma step_generic:
  assumes "eamount (debtors s ! idx_i s) = d" "eamount (creditors s ! idx_j s) = c"
    and "round2 (min \<bar>d\<bar> c) = a" "round2 (d + a) = d'" "round2 (c - a) = c'"
    and "(\<bar>d'\<bar> < 0.01) = A" "(c' < 0.01) = B"
  shows "settle_step s =
     s\<lparr>transactions :=
         (if 0 < Math_round a
          then transactions s @
               [\<lparr>from_id = eid (debtors s ! idx_i s), to_id = eid (creditors s ! idx_j s),
                 tx_amount = of_int (Math_round a)\<rparr>]
          else transactions s),
       debtors := (debtors s)[idx_i s := (debtors s ! idx_i s)\<lparr>eamount := d'\<rparr>],
       creditors := (creditors s)[idx_j s := (creditors s ! idx_j s)\<lparr>eamount := c'\<rparr>],
       idx_i := (if A then idx_i s + 1 else idx_i s),
       idx_j := (if B then idx_j s + 1 else idx_j s)\<rparr>"
  unfolding settle_step_def Let_def assms(1-5) using assms(6,7) by auto

lemma step_under_inv:
  assumes "settle_inv s" "running s"
  shows "settle_step s =
     s\<lparr>transactions :=
         (if 0 < Math_round (settled s)
          then transactions s @
               [\<lparr>from_id = eid (debtors s ! idx_i s), to_id = eid (creditors s ! idx_j s),
                 tx_amount = of_int (Math_round (settled s))\<rparr>]
          else transactions s),
       debtors := (debtors s)[idx_i s :=
         (debtors s ! idx_i s)\<lparr>eamount := eamount (debtors s ! idx_i s) + settled s\<rparr>],
       creditors := (creditors s)[idx_j s :=
         (creditors s ! idx_j s)\<lparr>eamount := eamount (creditors s ! idx_j s) - settled s\<rparr>],
       idx_i := (if settled s = - eamount (debtors s ! idx_i s) then idx_i s + 1 else idx_i s),
       idx_j := (if settled s = eamount (creditors s ! idx_j s) then idx_j s + 1 else idx_j s)\<rparr>"
proof -
  let ?d = "eamount (debtors s ! idx_i s)" and ?c = "eamount (creditors s ! idx_j s)"
  note f = settled_facts [OF assms]
  from inv_current [OF assms] have d: "cents ?d" and c: "cents ?c"
    by (simp_all add: owing_def due_def)
  have d': "cents (?d + settled s)" using d f(1) by (rule cents_add)
  have c': "cents (?c - settled s)" using c f(1) by (rule cents_diff)
  have rd: "round2 (?d + settled s) = ?d + settled s" using d' by (rule round2_cents)
  have rc: "round2 (?c - settled s) = ?c - settled s" using c' by (rule round2_cents)
  have zd: "\<bar>?d + settled s\<bar> < 0.01 \<longleftrightarrow> settled s = - ?d"
  proof
    assume a: "\<bar>?d + settled s\<bar> < 0.01"
    show "settled s = - ?d"
    proof (rule ccontr)
      assume "settled s \<noteq> - ?d"
      with f(3) have "?d + settled s < 0" by simp
      with d' have "?d + settled s \<le> - 0.01" by (rule cents_neg)
      with a show False by simp
    qed
  qed simp
  have zc: "?c - settled s < 0.01 \<longleftrightarrow> settled s = ?c"
  proof
    assume a: "?c - settled s < 0.01"
    show "settled s = ?c"
    proof (rule ccontr)
      assume "settled s \<noteq> ?c"
      with f(4) have "0 < ?c - settled s" by simp
      with c' have "0.01 \<le> ?c - settled s" by (rule cents_pos)
      with a show False by simp
    qed
  qed simp
  show ?thesis
    by (rule step_generic [OF refl refl f(5) rd rc zd zc])
qed


lemma step_inv:
  assumes "settle_inv s" "running s"
  shows "settle_inv (settle_step s)"
proof -
  let ?d = "eamount (debtors s ! idx_i s)" and ?c = "eamount (creditors s ! idx_j s)"
  note f = settled_facts [OF assms]
  from assms(2) have i: "idx_i s < length (debtors s)" and j: "idx_j s < length (creditors s)"
    by (simp_all add: running_def)
  from inv_current [OF assms] have d: "cents ?d" and c: "cents ?c"
    by (simp_all add: owing_def due_def)
  have d': "cents (?d + settled s)" using d f(1) by (rule cents_add)
  have c': "cents (?c - settled s)" using c f(1) by (rule cents_diff)
  have od: "settled s \<noteq> - ?d \<Longrightarrow> ?d + settled s \<le> - 0.01"
    using f(3) by (intro cents_neg [OF d']) simp
  have oc: "settled s \<noteq> ?c \<Longrightarrow> 0.01 \<le> ?c - settled s"
    using f(4) by (intro cents_pos [OF c']) simp
  have D: "\<forall>k. idx_i (settle_step s) \<le> k \<and> k < length (debtors (settle_step s))
         \<longrightarrow> owing (debtors (settle_step s) ! k)"
    using assms(1) i od d'
    by (auto simp: step_under_inv [OF assms] settle_inv_def nth_list_update owing_def)
  have C: "\<forall>k. idx_j (settle_step s) \<le> k \<and> k < length (creditors (settle_step s))
         \<longrightarrow> due (creditors (settle_step s) ! k)"
    using assms(1) j oc c'
    by (auto simp: step_under_inv [OF assms] settle_inv_def nth_list_update due_def)
  have "idx_i (settle_step s) \<le> length (debtors (settle_step s))"
    "idx_j (settle_step s) \<le> length (creditors (settle_step s))"
    using i j by (simp_all add: step_under_inv [OF assms])
  with D C show ?thesis unfolding settle_inv_def by blast
qed

lemma step_indices:
  assumes "settle_inv s" "running s"
  shows "idx_i s \<le> idx_i (settle_step s)" "idx_j s \<le> idx_j (settle_step s)"
    "idx_i s + idx_j s < idx_i (settle_step s) + idx_j (settle_step s)"
    "idx_i (settle_step s) \<le> idx_i s + 1" "idx_j (settle_step s) \<le> idx_j s + 1"
proof -
  have "settled s = - eamount (debtors s ! idx_i s) \<or> settled s = eamount (creditors s ! idx_j s)"
    by (auto simp: settled_def min_def)
  then show "idx_i s + idx_j s < idx_i (settle_step s) + idx_j (settle_step s)"
    by (auto simp: step_under_inv [OF assms])
qed (simp_all add: step_under_inv [OF assms])

lemma step_pending:
  assumes "settle_inv s" "running s"
  shows "pending (settle_step s) < pending s"
proof -
  from assms(2) have "idx_i s < length (debtors s)" "idx_j s < length (creditors s)"
    by (simp_all add: running_def)
  with step_indices [OF assms] show ?thesis
    unfolding pending_def step_length_debtors step_length_creditors by linarith
qed

text \<open>The loop ends from every state that satisfies the invariant, and a property that
  holds when the loop stops and is carried backwards over an iteration holds of the run.\<close>

lemma settle_loop_rule_inv:
  assumes inv: "settle_inv s" "I s"
    and keep: "\<And>s. settle_inv s \<Longrightarrow> I s \<Longrightarrow> running s \<Longrightarrow> I (settle_step s)"
    and stop: "\<And>s. settle_inv s \<Longrightarrow> I s \<Longrightarrow> \<not> running s \<Longrightarrow> P s s"
    and step: "\<And>s t. settle_inv s \<Longrightarrow> I s \<Longrightarrow> running s \<Longrightarrow> P (settle_step s) t \<Longrightarrow> P s t"
  shows "\<exists>t. settle_loop s = Some t \<and> P s t"
  using inv
proof (induction "pending s" arbitrary: s rule: less_induct)
  case less
  show ?case
  proof (cases "running s")
    case False
    with stop [OF less.prems] show ?thesis by (simp add: settle_loop.simps)
  next
    case True
    from less.hyps [OF step_pending [OF less.prems(1) True] step_inv [OF less.prems(1) True]
        keep [OF less.prems True]]
    obtain t where "settle_loop (settle_step s) = Some t" "P (settle_step s) t" by blast
    with True step [OF less.prems True] show ?thesis
      by (subst settle_loop.simps) simp
  qed
qed

lemma settle_loop_rule:
  assumes inv: "settle_inv s"
    and stop: "\<And>s. settle_inv s \<Longrightarrow> \<not> running s \<Longrightarrow> P s s"
    and step: "\<And>s t. settle_inv s \<Longrightarrow> running s \<Longrightarrow> P (settle_step s) t \<Longrightarrow> P s t"
  shows "\<exists>t. settle_loop s = Some t \<and> P s t"
  using inv TrueI
proof (rule settle_loop_rule_inv [where I = "\<lambda>_. True"])
qed (simp_all add: stop step)

subsection \<open>The state before the loop\<close>

lemma classify_eq:
  "classify s kv =
     s\<lparr>debtors := debtors s @ (if round2 (snd kv) < - 0.01 then [to_entry kv] else []),
       creditors := creditors s @ (if round2 (snd kv) > 0.01 then [to_entry kv] else [])\<rparr>"
  by (simp add: classify_def Let_def to_entry_def)

lemma foldl_classify:
  "foldl classify s b =
     s\<lparr>debtors := debtors s @ debtor_entries b, creditors := creditors s @ creditor_entries b\<rparr>"
proof (induction b arbitrary: s)
  case Nil
  show ?case by (simp add: debtor_entries_def creditor_entries_def)
next
  case (Cons kv b)
  have "foldl classify s (kv # b) = foldl classify (classify s kv) b" by simp
  also have "\<dots> = (classify s kv)\<lparr>debtors := debtors (classify s kv) @ debtor_entries b,
      creditors := creditors (classify s kv) @ creditor_entries b\<rparr>" by (rule Cons.IH)
  also have "\<dots> = s\<lparr>debtors := debtors s @ debtor_entries (kv # b),
      creditors := creditors s @ creditor_entries (kv # b)\<rparr>"
    unfolding classify_eq by (simp add: debtor_entries_def creditor_entries_def)
  finally show ?case .
qed

lemma settle_init_eq:
  "settle_init b =
     \<lparr>balances = b, debtors = sort_key eamount (debtor_entries b),
      creditors = sort_key (\<lambda>c. - eamount c) (creditor_entries b),
      idx_i = 0, idx_j = 0, transactions = []\<rparr>"
  by (simp add: settle_init_def foldl_classify sort_sides_def)

lemma owing_debtor_entries: "d \<in> set (debtor_entries b) \<Longrightarrow> owing d"
  by (auto simp: debtor_entries_def to_entry_def owing_def cents_round2)

lemma due_creditor_entries: "c \<in> set (creditor_entries b) \<Longrightarrow> due c"
  by (auto simp: creditor_entries_def to_entry_def due_def cents_round2)


lemma settle_inv_init: "settle_inv (settle_init b)"
proof -
  have "owing (sort_key eamount (debtor_entries b) ! k)"
    if "k < length (debtor_entries b)" for k
  proof -
    from that have "sort_key eamount (debtor_entries b) ! k \<in> set (sort_key eamount (debtor_entries b))"
      by (intro nth_mem) simp
    then show ?thesis by (simp add: owing_debtor_entries)
  qed
  moreover have "due (sort_key (\<lambda>c. - eamount c) (creditor_entries b) ! k)"
    if "k < length (creditor_entries b)" for k
  proof -
    from that have "sort_key (\<lambda>c. - eamount c) (creditor_entries b) ! k
        \<in> set (sort_key (\<lambda>c. - eamount c) (creditor_entries b))"
      by (intro nth_mem) simp
    then show ?thesis by (simp add: due_creditor_entries)
  qed
  ultimately show ?thesis by (simp add: settle_inv_def settle_init_eq)
qed

lemma pending_init: "pending (settle_init b) = outside_band b"
proof -
  have "length (filter (\<lambda>kv. round2 (snd kv) < - 0.01) b) +
        length (filter (\<lambda>kv. round2 (snd kv) > 0.01) b) =
        length (filter (\<lambda>kv. \<not> in_band (snd kv)) b)"
    by (induction b) (auto simp: in_band_def)
  then show ?thesis
    by (simp add: pending_def settle_init_eq debtor_entries_def creditor_entries_def outside_band_def)
qed


subsection \<open>Termination and the number of transactions\<close>

lemma step_transactions_length:
  "length (transactions (settle_step s)) \<le> length (transactions s) + 1"
  by (simp add: settle_step_def Let_def)

lemma running_pending: "running s \<Longrightarrow> 2 \<le> pending s"
  unfolding running_def pending_def by linarith

lemma settle_loop_count:
  assumes "settle_inv s"
  shows "\<exists>t. settle_loop s = Some t \<and>
           (length (transactions t) \<le> length (transactions s) + (pending s - 1) \<and>
           (\<not> running s \<longrightarrow> t = s))"
  using assms
proof (rule settle_loop_rule)
  fix s t
  assume inv: "settle_inv s" and run: "running s"
    and IH: "length (transactions t) \<le> length (transactions (settle_step s)) + (pending (settle_step s) - 1)
       \<and> (\<not> running (settle_step s) \<longrightarrow> t = settle_step s)"
  have "length (transactions t) \<le> length (transactions s) + (pending s - 1)"
  proof (cases "running (settle_step s)")
    case True
    from running_pending [OF this] step_pending [OF inv run] step_transactions_length [of s] IH
    show ?thesis by linarith
  next
    case False
    with IH have "t = settle_step s" by simp
    with running_pending [OF run] step_transactions_length [of s] show ?thesis by simp
  qed
  with run show "length (transactions t) \<le> length (transactions s) + (pending s - 1) \<and>
           (\<not> running s \<longrightarrow> t = s)" by simp
qed simp

lemmas settle_defs = calculateMinimalTransactions_def calculateMinimalTransactions_run_def
  settle_init_def classify_def sort_sides_def round2_def Math_round_def running_def
  settle_step_def Let_def

lemma sheet3_payments: "calculateMinimalTransactions sheet3 = Some payments3"
  by (simp add: settle_defs settle_loop.simps sheet3_def payments3_def)

lemma reachable_inv: "reachable b s \<Longrightarrow> settle_inv s"
  by (induction rule: reachable.induct) (simp_all add: settle_inv_init step_inv)

text \<open>
  On real amounts the matching loop ends for every balance sheet: the run returns a list.
  Every iteration of the run moves at least one of the two indices forward and none
  backward, and the number of transactions is at most the number of participants whose
  rounded balance lies outside the band of 0.01 around zero, minus one (and 0 when there
  is none; the subtraction on natural numbers stops at 0). This is the behaviour of the
  code as long as its arithmetic on doubles is exact; the section on doubles shows where
  it is not.
\<close>

theorem exact_run_terminates_bounded:
  "(\<exists>ts. calculateMinimalTransactions b = Some ts \<and> length ts \<le> outside_band b - 1) \<and>
   (\<forall>s. reachable b s \<and> running s \<longrightarrow>
      idx_i s \<le> idx_i (settle_step s) \<and> idx_j s \<le> idx_j (settle_step s) \<and>
      idx_i s + idx_j s < idx_i (settle_step s) + idx_j (settle_step s))"
proof
  from settle_loop_count [OF settle_inv_init [of b]]
  obtain t where "settle_loop (settle_init b) = Some t"
    "length (transactions t) \<le> length (transactions (settle_init b)) + (pending (settle_init b) - 1)"
    by blast
  moreover have "transactions (settle_init b) = []" by (simp add: settle_init_eq)
  ultimately show "\<exists>ts. calculateMinimalTransactions b = Some ts \<and> length ts \<le> outside_band b - 1"
    by (simp add: calculateMinimalTransactions_def calculateMinimalTransactions_run_def
        pending_init)
next
  show "\<forall>s. reachable b s \<and> running s \<longrightarrow>
      idx_i s \<le> idx_i (settle_step s) \<and> idx_j s \<le> idx_j (settle_step s) \<and>
      idx_i s + idx_j s < idx_i (settle_step s) + idx_j (settle_step s)"
    using step_indices reachable_inv by blast
qed

theorem exact_run_terminates_bounded_example:
  "calculateMinimalTransactions sheet3 = Some payments3 \<and>
   length payments3 \<le> outside_band sheet3 - 1 \<and>
   reachable sheet3 (settle_init sheet3) \<and> running (settle_init sheet3) \<and>
   idx_i (settle_init sheet3) + idx_j (settle_init sheet3)
     < idx_i (settle_step (settle_init sheet3)) + idx_j (settle_step (settle_init sheet3))"
proof -
  have r: "reachable sheet3 (settle_init sheet3)" by (rule reachable.start)
  have run: "running (settle_init sheet3)"
    by (simp add: settle_defs sheet3_def)
  from exact_run_terminates_bounded [of sheet3] r run sheet3_payments
  show ?thesis by auto
qed

subsection \<open>Who pays whom\<close>

lemma step_transactions_from:
  assumes "running s" "x \<in> set (transactions (settle_step s))"
  shows "x \<in> set (transactions s) \<or>
         from_id x \<in> eid ` set (debtors s) \<and> to_id x \<in> eid ` set (creditors s)"
proof -
  from assms(1) have "debtors s ! idx_i s \<in> set (debtors s)" "creditors s ! idx_j s \<in> set (creditors s)"
    by (simp_all add: running_def)
  with assms(2) show ?thesis
    by (auto simp: settle_step_def Let_def split: if_splits)
qed

lemma settle_loop_sides:
  assumes "settle_inv s"
  shows "\<exists>t. settle_loop s = Some t \<and>
           (\<forall>x \<in> set (transactions t). x \<in> set (transactions s) \<or>
              from_id x \<in> eid ` set (debtors s) \<and> to_id x \<in> eid ` set (creditors s))"
  using assms
proof (rule settle_loop_rule)
  fix s t
  assume run: "running s"
    and IH: "\<forall>x \<in> set (transactions t). x \<in> set (transactions (settle_step s)) \<or>
              from_id x \<in> eid ` set (debtors (settle_step s)) \<and>
              to_id x \<in> eid ` set (creditors (settle_step s))"
  have D: "eid ` set (debtors (settle_step s)) = eid ` set (debtors s)"
    using step_ids_debtors [of s] by (metis set_map)
  have C: "eid ` set (creditors (settle_step s)) = eid ` set (creditors s)"
    using step_ids_creditors [of s] by (metis set_map)
  show "\<forall>x \<in> set (transactions t). x \<in> set (transactions s) \<or>
              from_id x \<in> eid ` set (debtors s) \<and> to_id x \<in> eid ` set (creditors s)"
    using IH step_transactions_from [OF run] unfolding D C by blast
qed simp

lemma debtor_ids:
  assumes "wf_sheet b" "k \<in> eid ` set (debtors (settle_init b))"
  shows "\<exists>v. map_of b k = Some v \<and> round2 v < - 0.01"
proof -
  from assms(2) obtain kv where "kv \<in> set b" "round2 (snd kv) < - 0.01" "k = fst kv"
    by (auto simp: settle_init_eq debtor_entries_def to_entry_def)
  moreover from this assms(1) have "map_of b k = Some (snd kv)"
    by (simp add: wf_sheet_def)
  ultimately show ?thesis by blast
qed

lemma creditor_ids:
  assumes "wf_sheet b" "k \<in> eid ` set (creditors (settle_init b))"
  shows "\<exists>v. map_of b k = Some v \<and> 0.01 < round2 v"
proof -
  from assms(2) obtain kv where "kv \<in> set b" "0.01 < round2 (snd kv)" "k = fst kv"
    by (auto simp: settle_init_eq creditor_entries_def to_entry_def)
  moreover from this assms(1) have "map_of b k = Some (snd kv)"
    by (simp add: wf_sheet_def)
  ultimately show ?thesis by blast
qed

text \<open>
  Claim C6 (directional correctness, no self-payment). For every balance sheet (an object,
  so with pairwise distinct keys) the call returns, and for every transaction returned the
  input balance of its \<open>from\<close>, rounded to two decimals, is below -0.01, the input balance
  of its \<open>to\<close>, rounded to two decimals, is above +0.01, and \<open>from\<close> differs from \<open>to\<close>.
\<close>

theorem transactions_go_from_debtor_to_creditor:
  assumes "wf_sheet b"
  shows "\<exists>ts. calculateMinimalTransactions b = Some ts \<and>
           (\<forall>t \<in> set ts.
              (\<exists>v. map_of b (from_id t) = Some v \<and> round2 v < - 0.01) \<and>
              (\<exists>w. map_of b (to_id t) = Some w \<and> 0.01 < round2 w) \<and>
              from_id t \<noteq> to_id t)"
proof -
  from settle_loop_sides [OF settle_inv_init [of b]]
  obtain s where s: "settle_loop (settle_init b) = Some s"
    and sides: "\<forall>x \<in> set (transactions s).
       from_id x \<in> eid ` set (debtors (settle_init b)) \<and>
       to_id x \<in> eid ` set (creditors (settle_init b))"
    by (auto simp: settle_init_eq)
  have "(\<exists>v. map_of b (from_id t) = Some v \<and> round2 v < - 0.01) \<and>
        (\<exists>w. map_of b (to_id t) = Some w \<and> 0.01 < round2 w) \<and> from_id t \<noteq> to_id t"
    if "t \<in> set (transactions s)" for t
  proof -
    from sides that debtor_ids [OF assms] obtain v
      where v: "map_of b (from_id t) = Some v" "round2 v < - 0.01" by blast
    from sides that creditor_ids [OF assms] obtain w
      where w: "map_of b (to_id t) = Some w" "0.01 < round2 w" by blast
    from v w have "from_id t \<noteq> to_id t" by auto
    with v w show ?thesis by blast
  qed
  with s show ?thesis
    by (simp add: calculateMinimalTransactions_def calculateMinimalTransactions_run_def)
qed

theorem transactions_go_from_debtor_to_creditor_witness:
  "wf_sheet sheet3 \<and> calculateMinimalTransactions sheet3 = Some payments3 \<and>
   map_of sheet3 ''b'' = Some (- 30) \<and> round2 (- 30) < - 0.01 \<and>
   map_of sheet3 ''a'' = Some 60 \<and> 0.01 < round2 60 \<and>
   from_id (hd payments3) = ''b'' \<and> to_id (hd payments3) = ''a''"
proof -
  have wf: "wf_sheet sheet3" by (simp add: wf_sheet_def sheet3_def)
  from transactions_go_from_debtor_to_creditor [OF wf] sheet3_payments wf
  show ?thesis by (simp add: sheet3_def payments3_def round2_def Math_round_def)
qed

subsection \<open>When the result is empty\<close>











lemma in_band_implies_no_half: "\<forall>kv \<in> set b. in_band (snd kv) \<Longrightarrow> \<not> half_on_both_sides b"
  by (auto simp: in_band_def half_on_both_sides_def)



subsection \<open>What the payments settle\<close>












lemma sum_list_pos_nonempty:
  "xs \<noteq> [] \<Longrightarrow> \<forall>x \<in> set xs. (0::real) < f x \<Longrightarrow> 0 < sum_list (map f xs)"
proof (induction xs)
  case Nil
  then show ?case by simp
next
  case (Cons a xs)
  then show ?case by (cases "xs = []") (auto intro: add_pos_pos)
qed




































section \<open>Doubles\<close>

subsection \<open>Rounding to the nearest double\<close>

lemma quantum_binade:
  assumes "2 powr of_int e \<le> \<bar>x\<bar>" "\<bar>x\<bar> < 2 powr (of_int e + 1)" "- 1022 \<le> e"
  shows "quantum x = 2 powr (of_int e - 52)"
proof -
  from assms(1) have "0 < \<bar>x\<bar>" by (smt (verit) powr_gt_zero)
  with assms(1,2) have "\<lfloor>log 2 \<bar>x\<bar>\<rfloor> = e"
    by (simp add: floor_log_eq_powr_iff)
  with assms(3) show ?thesis by (simp add: quantum_def)
qed

lemma powr_int_neg: "0 < n \<Longrightarrow> (2::real) powr (- of_nat n) = 1 / 2 ^ n"
  by (simp add: powr_minus powr_realpow divide_inverse)

lemma quantum_hundredth: "quantum (1 / 100) = 1 / 2 ^ 59"
proof -
  have "quantum (1 / 100) = 2 powr (of_int (- 7) - 52)"
  proof (rule quantum_binade)
    have "(2::real) powr of_int (- 7) = 1 / 2 ^ 7" using powr_int_neg [of 7] by simp
    then show "2 powr of_int (- 7) \<le> \<bar>1 / 100 :: real\<bar>" by simp
    have "(2::real) powr (of_int (- 7) + 1) = 1 / 2 ^ 6" using powr_int_neg [of 6] by simp
    then show "\<bar>1 / 100 :: real\<bar> < 2 powr (of_int (- 7) + 1)" by simp
  qed simp
  also have "\<dots> = 1 / 2 ^ 59" using powr_int_neg [of 59] by simp
  finally show ?thesis .
qed

text \<open>The literal \<open>0.01\<close> is the double \<open>5764607523034235 / 2^59\<close>, a little above one
  hundredth.\<close>

lemma hundredth_value: "hundredth = Finite (5764607523034235 / 2 ^ 59)"
  by (simp add: hundredth_def to_double_def quantum_hundredth ties_to_even_def Let_def)


lemma powr_int_pos: "(2::real) powr (of_nat n) = 2 ^ n"
  by (simp add: powr_realpow)

lemma quantum_at:
  assumes "2 ^ n \<le> \<bar>x\<bar>" "\<bar>x\<bar> < 2 ^ Suc n"
  shows "quantum x = 2 powr (real n - 52)"
proof -
  have "quantum x = 2 powr (of_int (int n) - 52)"
  proof (rule quantum_binade)
    show "2 powr of_int (int n) \<le> \<bar>x\<bar>" using assms(1) powr_int_pos [of n] by simp
    have "(2::real) powr (of_int (int n) + 1) = 2 ^ Suc n"
      using powr_int_pos [of "Suc n"] by (simp add: add.commute)
    with assms(2) show "\<bar>x\<bar> < 2 powr (of_int (int n) + 1)" by simp
  qed simp
  then show ?thesis by simp
qed

lemma quantum_below:
  assumes "1 / 2 ^ n \<le> \<bar>x\<bar>" "\<bar>x\<bar> < 2 / 2 ^ n" "0 < n" "n \<le> 1022"
  shows "quantum x = 1 / 2 ^ (n + 52)"
proof -
  have "quantum x = 2 powr (of_int (- int n) - 52)"
  proof (rule quantum_binade)
    show "2 powr of_int (- int n) \<le> \<bar>x\<bar>" using assms(1,3) powr_int_neg [of n] by simp
    have "(2::real) powr (of_int (- int n) + 1) = 2 powr (of_int (- int n)) * 2 powr 1"
      by (rule powr_add)
    also have "\<dots> = 2 / 2 ^ n" using powr_int_neg [of n] assms(3) by simp
    finally show "\<bar>x\<bar> < 2 powr (of_int (- int n) + 1)" using assms(2) by simp
  next
    show "- 1022 \<le> - int n" using assms(4) by simp
  qed
  also have "\<dots> = 2 powr (- real (n + 52))" by simp
  also have "\<dots> = 1 / 2 ^ (n + 52)" using powr_int_neg [of "n + 52"] by simp
  finally show ?thesis .
qed

lemma to_double_finite:
  assumes "quantum x = q" "x \<noteq> 0" "\<bar>x\<bar> < 2 ^ 1024 - 2 ^ 970"
    and "of_int (ties_to_even (x / q)) * q = y"
  shows "to_double x = Finite y"
  using assms by (simp add: to_double_def)

text \<open>The helper is not idempotent on large amounts: \<open>round(40000000000000.02)\<close> is
  \<open>40000000000000.03\<close>. (The two literals are the doubles \<open>5120000000000003 / 128\<close> and
  \<open>1280000000000001 / 32\<close>.)\<close>

lemma round_d_moves:
  "round_d (Finite (5120000000000003 / 128)) = Finite (1280000000000001 / 32)"
proof -
  have q1: "quantum (5120000000000003 / 128 * 100) = 1 / 2"
    using quantum_at [of 51 "5120000000000003 / 128 * 100"] by (simp add: powr_minus)
  have m: "to_double (5120000000000003 / 128 * 100) = Finite (8000000000000005 / 2)"
    by (rule to_double_finite [OF q1]) (simp_all add: ties_to_even_def Let_def)
  have q2: "quantum (of_int 4000000000000003 / 100) = 1 / 2 ^ 7"
    using quantum_at [of 45 "4000000000000003 / 100"] powr_int_neg [of 7] by simp
  have d: "to_double (of_int 4000000000000003 / 100) = Finite (1280000000000001 / 32)"
    by (rule to_double_finite [OF q2]) (simp_all add: ties_to_even_def Let_def)
  have r: "Math_round (8000000000000005 / 2) = 4000000000000003"
    by (simp add: Math_round_def)
  show ?thesis
    unfolding round_d_def js_mul.simps m Math_round_d.simps r js_div.simps using d by simp
qed

text \<open>The chunk of a debt of 11 towards a payer of 15 out of 22 is not 7.5 on doubles.\<close>

lemma chunk_on_doubles:
  "js_mul (Finite 11) (js_div (Finite 15) (Finite 22)) = Finite (8444249301319679 / 2 ^ 50)"
proof -
  have q1: "quantum (15 / 22) = 1 / 2 ^ 53"
    using quantum_below [of 1 "15 / 22"] by simp
  have d: "to_double (15 / 22) = Finite (6141272219141585 / 2 ^ 53)"
    by (rule to_double_finite [OF q1]) (simp_all add: ties_to_even_def Let_def)
  have q2: "quantum (11 * (6141272219141585 / 2 ^ 53)) = 1 / 2 ^ 50"
    using quantum_at [of 2 "11 * (6141272219141585 / 2 ^ 53)"] powr_int_neg [of 50] by simp
  have m: "to_double (11 * (6141272219141585 / 2 ^ 53)) = Finite (8444249301319679 / 2 ^ 50)"
    by (rule to_double_finite [OF q2]) (simp_all add: ties_to_even_def Let_def)
  have "js_div (Finite 15) (Finite 22) = Finite (6141272219141585 / 2 ^ 53)"
    unfolding js_div.simps using d by simp
  then show ?thesis
    unfolding js_mul.simps using m by (simp only: js_mul.simps)
qed

subsection \<open>The run on doubles that never returns\<close>

lemma overflow_up: "to_double (huge * 100) = PosInfinity"
  by (simp add: to_double_def huge_def)

lemma overflow_down: "to_double (- (huge * 100)) = NegInfinity"
  by (simp add: to_double_def huge_def)

lemma hundredth_finite: "\<exists>c. hundredth = Finite c"
  by (simp add: hundredth_def to_double_def)

lemma round_d_special:
  "round_d PosInfinity = PosInfinity" "round_d NegInfinity = NegInfinity"
  "round_d NotANumber = NotANumber"
  by (simp_all add: round_d_def)

lemma round_d_huge:
  "round_d (Finite huge) = PosInfinity" "round_d (Finite (- huge)) = NegInfinity"
  by (simp_all add: round_d_def overflow_up overflow_down)

lemma settle_init_huge:
  "settle_init_d huge_sheet =
     \<lparr>balances_d = huge_sheet,
      debtors_d = [\<lparr>eid_d = ''b'', eamount_d = NegInfinity\<rparr>],
      creditors_d = [\<lparr>eid_d = ''a'', eamount_d = PosInfinity\<rparr>],
      idx_i_d = 0, idx_j_d = 0, transactions_d = []\<rparr>"
proof -
  from hundredth_finite obtain c where c: "hundredth = Finite c" ..
  show ?thesis
    by (simp add: settle_init_d_def huge_sheet_def classify_d_def Let_def round_d_huge c
        sort_sides_d_def sort_by_def)
qed

lemma first_step_huge: "settle_step_d (settle_init_d huge_sheet) = stuck"
proof -
  from hundredth_finite obtain c where c: "hundredth = Finite c" ..
  show ?thesis
    by (simp add: settle_init_huge settle_step_d_def Let_def Math_min_def round_d_special
        js_sub_def c stuck_def)
qed

lemma stuck_step: "settle_step_d stuck = stuck"
proof -
  from hundredth_finite obtain c where c: "hundredth = Finite c" ..
  show ?thesis
    by (simp add: stuck_def settle_step_d_def Let_def Math_min_def round_d_special js_sub_def c)
qed

lemma stuck_running: "running_d stuck"
  by (simp add: stuck_def running_d_def)

lemma stuck_forever: "settle_loop_d stuck = None"
proof -
  have "s \<noteq> stuck" if "settle_loop_d s = Some y" for s y
  proof (rule settle_loop_d.raw_induct [where P = "\<lambda>s y. s \<noteq> stuck", OF _ that])
    fix f s y
    assume IH: "\<And>x z. f x = Some z \<Longrightarrow> x \<noteq> stuck"
      and eq: "(if running_d s then f (settle_step_d s) else Some s) = Some y"
    show "s \<noteq> stuck"
    proof
      assume "s = stuck"
      with eq stuck_running stuck_step have "f stuck = Some y" by simp
      with IH show False by blast
    qed
  qed
  then show ?thesis by (cases "settle_loop_d stuck") auto
qed

text \<open>
  Claim C7 says that the matching loop terminates on every balance sheet and that each
  iteration advances an index. On the sheet with a credit and a debt of \<open>2^1020\<close> the
  helper \<open>round\<close> overflows to the infinities, the first match leaves NaN in both open
  amounts, and from then on no comparison is true: no index moves and the call never
  returns.
\<close>

theorem calculateMinimalTransactions_never_returns:
  "calculateMinimalTransactions_d huge_sheet = None \<and>
   running_d stuck \<and> settle_step_d stuck = stuck \<and>
   settle_step_d (settle_init_d huge_sheet) = stuck"
proof -
  have "running_d (settle_init_d huge_sheet)"
    by (simp add: settle_init_huge running_d_def)
  then have "settle_loop_d (settle_init_d huge_sheet) = settle_loop_d stuck"
    by (subst settle_loop_d.simps) (simp add: first_step_huge)
  with stuck_forever stuck_running stuck_step first_step_huge show ?thesis
    by (simp add: calculateMinimalTransactions_d_def)
qed

section \<open>Properties of getDetailedRawDebts\<close>

lemmas raw_defs = getDetailedRawDebts_def raw_debt_lines_def getDetailedRawDebts_run_def
  build_matrix_def init_matrix_def zero_row_def expense_debts_def totalPaid_def pair_debt_def
  add_debt_def as_number_def consolidate_def visit_pair_def read_cell_def push_line_def
  pair_key_def format_line_def show_int_def show_nat.simps Math_round_def Let_def

text \<open>
  Claim C3 asks that all three functions return normally on every input, unknown ids
  included. \<open>calculateBalances\<close> reads a missing balance as 0; \<open>getDetailedRawDebts\<close>
  has no such guard for a missing row: with the members a, b, c and an expense that a paid
  and the unknown id x owes, the call throws a TypeError.
\<close>

theorem getDetailedRawDebts_throws_on_unknown_debtor:
  "getDetailedRawDebts [stray] [alice, bob, carol] = Inl TypeError"
  by (simp add: raw_defs ex_defs)

subsection \<open>The arguments are left as they were\<close>

lemma forEach_preserves:
  assumes "\<And>s x. P s \<Longrightarrow> P (fst (f s x))" and "P s"
  shows "P (fst (forEach f s xs))"
  using assms(2)
proof (induction xs arbitrary: s)
  case Nil
  then show ?case by simp
next
  case (Cons x xs)
  from assms(1) [OF Cons.prems, of x] Cons.IH [of "fst (f s x)"]
  show ?case by (cases "f s x") (auto split: option.splits)
qed

lemma pair_debt_args: "same_args es ms st \<Longrightarrow> same_args es ms (fst (pair_debt paid sp st p))"
  by (simp add: pair_debt_def Let_def same_args_def split: sum.splits)

lemma expense_debts_args: "same_args es ms st \<Longrightarrow> same_args es ms (fst (expense_debts st ex))"
  unfolding expense_debts_def
  by (simp add: forEach_preserves [where P = "same_args es ms"] pair_debt_args)

lemma visit_pair_args: "same_args es ms st \<Longrightarrow> same_args es ms (fst (visit_pair a st b))"
  by (simp add: visit_pair_def push_line_def Let_def same_args_def split: sum.splits cell.splits)

lemma build_matrix_args: "same_args es ms st \<Longrightarrow> same_args es ms (fst (build_matrix st))"
  unfolding build_matrix_def
  by (rule forEach_preserves [where P = "same_args es ms"])
     (simp_all add: expense_debts_args, simp add: same_args_def)

lemma consolidate_args: "same_args es ms st \<Longrightarrow> same_args es ms (fst (consolidate st))"
  unfolding consolidate_def
  by (simp add: forEach_preserves [where P = "same_args es ms"] visit_pair_args)

lemma getDetailedRawDebts_run_args: "same_args es ms (fst (getDetailedRawDebts_run es ms))"
proof -
  let ?s0 = "\<lparr>rd_expenses = es, rd_members = ms, debtMatrix = Map.empty,
              results = [], processed = {}\<rparr>"
  have 0: "same_args es ms ?s0" by (simp add: same_args_def)
  from build_matrix_args [OF 0] consolidate_args [of es ms "fst (build_matrix ?s0)"]
  show ?thesis
    unfolding getDetailedRawDebts_run_def
    by (cases "build_matrix ?s0") (auto split: option.splits)
qed

lemma settle_loop_balances:
  assumes "settle_inv s"
  shows "\<exists>t. settle_loop s = Some t \<and> balances t = balances s"
  using assms
  by (rule settle_loop_rule) (simp_all add: step_balances)

text \<open>
  Claim C10 (frame). The state of each run holds the arguments next to the local objects.
  \<open>calculateMinimalTransactions\<close> returns, and the balance sheet it was given is the one
  it leaves; \<open>calculateBalances\<close> and \<open>getDetailedRawDebts\<close> leave the expense list and
  the member list as they were, the latter also when it throws.
\<close>

theorem core_functions_leave_arguments_unchanged:
  "(\<exists>s. calculateMinimalTransactions_run b = Some s \<and> balances s = b) \<and>
   cb_expenses (calculateBalances_run expenses members) = expenses \<and>
   cb_members (calculateBalances_run expenses members) = members \<and>
   rd_expenses (fst (getDetailedRawDebts_run expenses members)) = expenses \<and>
   rd_members (fst (getDetailedRawDebts_run expenses members)) = members"
proof -
  from settle_loop_balances [OF settle_inv_init [of b]]
  have "\<exists>s. calculateMinimalTransactions_run b = Some s \<and> balances s = b"
    by (simp add: calculateMinimalTransactions_run_def settle_init_eq)
  with getDetailedRawDebts_run_args [of expenses members] show ?thesis
    by (simp add: calculateBalances_run_eq same_args_def)
qed

theorem core_functions_leave_arguments_unchanged_witness:
  "map_option balances (calculateMinimalTransactions_run sheet3) = Some sheet3 \<and>
   cb_expenses (calculateBalances_run [dinner] [alice, bob, carol]) = [dinner] \<and>
   rd_members (fst (getDetailedRawDebts_run [stray] [alice, bob, carol])) = [alice, bob, carol]"
  using core_functions_leave_arguments_unchanged [of sheet3 "[dinner]" "[alice, bob, carol]"]
    core_functions_leave_arguments_unchanged [of sheet3 "[stray]" "[alice, bob, carol]"]
  by auto

subsection \<open>The cells of the matrix\<close>

lemma foldl_map_upd:
  "foldl (\<lambda>m k. m(g k \<mapsto> v)) m0 ks x = (if x \<in> g ` set ks then Some v else m0 x)"
  by (induction ks arbitrary: m0) auto

lemma cells_init: "cells_are (id' ` set ms) (\<lambda>x y. 0) (init_matrix ms)"
  by (auto simp: cells_are_def cell_at_def init_matrix_def zero_row_def foldl_map_upd)

lemma forEach_accum:
  assumes "\<And>pre x s. I pre s \<Longrightarrow> x \<in> set xs \<Longrightarrow> \<exists>s'. f s x = (s', None) \<and> I (pre @ [x]) s'"
    and "I pre s"
  shows "\<exists>s'. forEach f s xs = (s', None) \<and> I (pre @ xs) s'"
  using assms
proof (induction xs arbitrary: pre s)
  case Nil
  then show ?case by simp
next
  case (Cons x xs)
  from Cons.prems(1) [OF Cons.prems(2), of x]
  obtain s1 where s1: "f s x = (s1, None)" "I (pre @ [x]) s1" by auto
  have "\<exists>s'. forEach f s1 xs = (s', None) \<and> I ((pre @ [x]) @ xs) s'"
  proof (rule Cons.IH [OF _ s1(2)])
    fix pre' y s'
    assume "I pre' s'" "y \<in> set xs"
    then show "\<exists>s''. f s' y = (s'', None) \<and> I (pre' @ [y]) s''"
      using Cons.prems(1) [of pre' s' y] by simp
  qed
  with s1(1) show ?case by simp
qed

lemma pair_debt_cells:
  assumes "building es ms V st" "memberId sp \<in> id' ` set ms"
  shows "\<exists>st'. pair_debt paid sp st p = (st', None) \<and>
           building es ms (\<lambda>x y. V x y + pair_chunk paid x y sp p) st'"
proof (cases "memberId sp = memberId p")
  case True
  with assms(1) show ?thesis by (simp add: pair_debt_def pair_chunk_def)
next
  case False
  let ?M = "id' ` set ms"
  from assms have c: "cells_are ?M V (debtMatrix st)" by (simp add: building_def)
  with assms(2) have "cell_at (debtMatrix st) (memberId sp) (memberId sp) \<noteq> None"
    by (auto simp: cells_are_def)
  then obtain r where r: "debtMatrix st (memberId sp) = Some r"
    by (auto simp: cell_at_def split: option.splits)
  let ?c = "amount sp * (amount p / paid)"
  let ?dm = "(debtMatrix st)(memberId sp \<mapsto> r(memberId p \<mapsto> cell_add (as_number (r (memberId p))) ?c))"
  from r False have eq: "pair_debt paid sp st p = (st\<lparr>debtMatrix := ?dm\<rparr>, None)"
    by (simp add: pair_debt_def add_debt_def Let_def)
  have "cell_at ?dm x y = Some (Num (V x y + pair_chunk paid x y sp p))"
    if "x \<in> ?M" "y \<in> ?M" for x y
  proof -
    from c that have v: "cell_at (debtMatrix st) x y = Some (Num (V x y))"
      unfolding cells_are_def by blast
    show ?thesis
    proof (cases "x = memberId sp \<and> y = memberId p")
      case True
      with v r have "r (memberId p) = Some (Num (V x y))" by (simp add: cell_at_def)
      with True False show ?thesis
        by (simp add: cell_at_def as_number_def pair_chunk_def)
    next
      case False
      with v r show ?thesis
        by (auto simp: cell_at_def pair_chunk_def)
    qed
  qed
  then have "cells_are ?M (\<lambda>x y. V x y + pair_chunk paid x y sp p) ?dm"
    by (simp add: cells_are_def)
  with assms(1) eq show ?thesis by (simp add: building_def)
qed


lemma payers_cells:
  assumes "building es ms V st" "memberId sp \<in> id' ` set ms"
  shows "\<exists>st'. forEach (pair_debt paid sp) st ps = (st', None) \<and>
           building es ms (\<lambda>x y. V x y + sum_list (map (pair_chunk paid x y sp) ps)) st'"
proof -
  let ?I = "\<lambda>pre st'. building es ms (\<lambda>x y. V x y + sum_list (map (pair_chunk paid x y sp) pre)) st'"
  have "\<exists>st'. forEach (pair_debt paid sp) st ps = (st', None) \<and> ?I ([] @ ps) st'"
  proof (rule forEach_accum [where I = ?I])
    show "?I [] st" using assms(1) by simp
  next
    fix pre p s
    assume "?I pre s"
    from pair_debt_cells [OF this assms(2), of paid p]
    show "\<exists>s'. pair_debt paid sp s p = (s', None) \<and> ?I (pre @ [p]) s'"
      by (simp add: add.assoc)
  qed
  then show ?thesis by simp
qed

lemma splitters_cells:
  assumes "building es ms V st" "memberId ` set sps \<subseteq> id' ` set ms"
  shows "\<exists>st'. forEach (\<lambda>st' sp. forEach (pair_debt paid sp) st' ps) st sps = (st', None) \<and>
           building es ms (\<lambda>x y. V x y +
             sum_list (map (\<lambda>sp. sum_list (map (pair_chunk paid x y sp) ps)) sps)) st'"
proof -
  let ?I = "\<lambda>pre st'. building es ms (\<lambda>x y. V x y +
             sum_list (map (\<lambda>sp. sum_list (map (pair_chunk paid x y sp) ps)) pre)) st'"
  have "\<exists>st'. forEach (\<lambda>st' sp. forEach (pair_debt paid sp) st' ps) st sps = (st', None) \<and>
          ?I ([] @ sps) st'"
  proof (rule forEach_accum [where I = ?I])
    show "?I [] st" using assms(1) by simp
  next
    fix pre sp s
    assume I: "?I pre s" and "sp \<in> set sps"
    with assms(2) have "memberId sp \<in> id' ` set ms" by auto
    from payers_cells [OF I this, of paid ps]
    show "\<exists>s'. forEach (pair_debt paid sp) s ps = (s', None) \<and> ?I (pre @ [sp]) s'"
      by (simp add: add.assoc)
  qed
  then show ?thesis by simp
qed

lemma expense_cells:
  assumes "building es ms V st" "memberId ` set (splitAmong ex) \<subseteq> id' ` set ms"
  shows "\<exists>st'. expense_debts st ex = (st', None) \<and>
           building es ms (\<lambda>x y. V x y + expense_chunks x y ex) st'"
proof (cases "totalPaid ex = 0")
  case True
  with assms(1) show ?thesis by (simp add: expense_debts_def expense_chunks_def)
next
  case False
  with splitters_cells [OF assms, of "totalPaid ex" "paidBy ex"] show ?thesis
    by (simp add: expense_debts_def expense_chunks_def)
qed

lemma expenses_cells:
  assumes "building es ms V st" "\<forall>e \<in> set xs. memberId ` set (splitAmong e) \<subseteq> id' ` set ms"
  shows "\<exists>st'. forEach expense_debts st xs = (st', None) \<and>
           building es ms (\<lambda>x y. V x y + raw_debt xs x y) st'"
proof -
  let ?I = "\<lambda>pre st'. building es ms (\<lambda>x y. V x y + raw_debt pre x y) st'"
  have "\<exists>st'. forEach expense_debts st xs = (st', None) \<and> ?I ([] @ xs) st'"
  proof (rule forEach_accum [where I = ?I])
    show "?I [] st" using assms(1) by (simp add: raw_debt_def)
  next
    fix pre e s
    assume I: "?I pre s" and "e \<in> set xs"
    with assms(2) have "memberId ` set (splitAmong e) \<subseteq> id' ` set ms" by blast
    from expense_cells [OF I this]
    show "\<exists>s'. expense_debts s e = (s', None) \<and> ?I (pre @ [e]) s'"
      by (simp add: raw_debt_def add.assoc)
  qed
  then show ?thesis by simp
qed

lemma building_start:
  "building es ms (\<lambda>x y. 0) ((raw_start es ms)\<lparr>debtMatrix := init_matrix ms\<rparr>)"
  by (simp add: building_def cells_init raw_start_def)

text \<open>
  Where the code has a row for every debtor, it does what the specification says. Under
  exact arithmetic, when the id of every debtor share is in the member list, the matrix is
  built without an exception, and for all member ids x and y the cell in row x and column
  y ends as the sum, over the expenses whose payer shares add up to a non-zero total, of
  \<open>debtorShare.amount * payerShare.amount / totalPaid\<close> over the pairs of a debtor share
  of x and a payer share of y with x different from y. A pair of equal ids adds nothing,
  and an expense whose total is zero adds nothing, so nothing is divided by zero. (The code
  computes the chunk as \<open>debtorShare.amount * (payerShare.amount / totalPaid)\<close> on
  doubles, which can differ from the formula in the last digit.)
\<close>

theorem raw_debts_are_proportional:
  assumes "\<forall>e \<in> set expenses. memberId ` set (splitAmong e) \<subseteq> id' ` set members"
  shows "snd (build_matrix (raw_start expenses members)) = None \<and>
         (\<forall>x \<in> id' ` set members. \<forall>y \<in> id' ` set members.
            cell_at (debtMatrix (fst (build_matrix (raw_start expenses members)))) x y =
              Some (Num (raw_debt expenses x y)))"
proof -
  from expenses_cells [OF building_start assms]
  obtain st where st: "build_matrix (raw_start expenses members) = (st, None)"
    "building expenses members (\<lambda>x y. 0 + raw_debt expenses x y) st"
    by (auto simp: build_matrix_def raw_start_def)
  from st(2) have "cells_are (id' ` set members) (raw_debt expenses) (debtMatrix st)"
    by (simp add: building_def)
  with st(1) show ?thesis by (simp add: cells_are_def)
qed

lemmas chunk_defs = raw_debt_def expense_chunks_def pair_chunk_def totalPaid_def

theorem raw_debts_are_proportional_example:
  "memberId ` set (splitAmong dinner) \<subseteq> id' ` set [alice, bob, carol] \<and>
   snd (build_matrix (raw_start [dinner] [alice, bob, carol])) = None \<and>
   cell_at (debtMatrix (fst (build_matrix (raw_start [dinner] [alice, bob, carol])))) ''b'' ''a''
     = Some (Num 30) \<and>
   cell_at (debtMatrix (fst (build_matrix (raw_start [dinner] [alice, bob, carol])))) ''a'' ''a''
     = Some (Num 0)"
proof -
  have h: "\<forall>e \<in> set [dinner]. memberId ` set (splitAmong e) \<subseteq> id' ` set [alice, bob, carol]"
    by (simp add: ex_defs)
  have 1: "raw_debt [dinner] ''b'' ''a'' = 30" by (simp add: chunk_defs ex_defs)
  have 2: "raw_debt [dinner] ''a'' ''a'' = 0" by (simp add: chunk_defs ex_defs)
  from raw_debts_are_proportional [OF h] h 1 2 show ?thesis
    by (simp add: alice_def bob_def carol_def)
qed

text \<open>
  Claim C8 says that every pair of a debtor share and a payer share with distinct ids, in
  an expense with a non-zero paid total, adds its proportional chunk to the cell of the
  debtor's row and the payer's column. The code does so only for ids of the member list:
  it has no guard for a row or a cell that the first loop did not create. The pair of the
  debtor a and the unknown payer x should add 10 to the cell in row a and column x, which
  ends as NaN (undefined plus 10); and the pair of the unknown debtor x and the payer a
  adds nothing, because the call throws a TypeError. All numbers in these two runs are
  small integers, on which doubles are exact.
\<close>

theorem raw_debts_lost_outside_member_list:
  "totalPaid ghost = 10 \<and>
   snd (build_matrix (raw_start [ghost] [alice, bob, carol])) = None \<and>
   cell_at (debtMatrix (fst (build_matrix (raw_start [ghost] [alice, bob, carol])))) ''a'' ''x''
     = Some NaN \<and>
   totalPaid stray = 10 \<and>
   snd (build_matrix (raw_start [stray] [alice, bob, carol])) = Some TypeError"
  by (simp add: raw_defs ex_defs raw_start_def cell_at_def)

subsection \<open>The consolidated lines\<close>

lemma forEach_preserves_in:
  assumes "\<And>s x. P s \<Longrightarrow> x \<in> set xs \<Longrightarrow> P (fst (f s x))" and "P s"
  shows "P (fst (forEach f s xs))"
  using assms
proof (induction xs arbitrary: s)
  case Nil
  then show ?case by simp
next
  case (Cons x xs)
  from Cons.prems have 1: "P (fst (f s x))" by simp
  have "P (fst (forEach f (fst (f s x)) xs))"
    by (rule Cons.IH [OF _ 1]) (simp add: Cons.prems(1))
  with 1 show ?case by (cases "f s x") (auto split: option.splits)
qed

lemma pair_key_sym: "pair_key x y = pair_key y x"
  by (auto simp: pair_key_def)

lemma pair_key_Min_Max: "pair_key x y = Min {x, y} @ ''-'' @ Max {x, y}"
  by (auto simp: pair_key_def min_def max_def)

lemma line_key_pair: "line_key l = Min (line_pair l) @ ''-'' @ Max (line_pair l)"
  by (simp add: line_key_def line_pair_def pair_key_Min_Max)

lemma cell_sub_swap: "cell_sub v w = Num n \<Longrightarrow> cell_sub w v = Num (- n)"
  by (cases v; cases w) auto

lemma net_debt_swap: "net_debt dm x y = Num n \<Longrightarrow> net_debt dm y x = Num (- n)"
  unfolding net_debt_def by (rule cell_sub_swap)

lemma read_cell_net:
  assumes "read_cell dm x y = Inr v" "read_cell dm y x = Inr w"
  shows "cell_sub v w = net_debt dm x y"
  using assms by (auto simp: read_cell_def net_debt_def cell_at_def split: option.splits)

lemma push_line_cases:
  "push_line st a b net = st \<or>
   (\<exists>n. net = Num n \<and> 0.01 < n \<and>
      push_line st a b net = st\<lparr>results := results st @ [\<lparr>ower = a, owed = b, line_amount = Math_round n\<rparr>]\<rparr>) \<or>
   (\<exists>n. net = Num n \<and> n < - 0.01 \<and>
      push_line st a b net = st\<lparr>results := results st @ [\<lparr>ower = b, owed = a, line_amount = Math_round \<bar>n\<bar>\<rparr>]\<rparr>)"
  by (cases net) (auto simp: push_line_def)

lemma visit_pair_consolidating:
  assumes "consolidating ms dm st" "a \<in> set ms" "b \<in> set ms"
  shows "consolidating ms dm (fst (visit_pair a st b))"
proof -
  let ?key = "pair_key (id' a) (id' b)"
  let ?K = "(\<lambda>B. Min B @ ''-'' @ Max B) ` {B. B \<subseteq> id' ` set ms \<and> card B = 2}"
  show ?thesis
  proof (cases "id' a = id' b \<or> ?key \<in> processed st")
    case True
    with assms(1) show ?thesis by (auto simp: visit_pair_def Let_def)
  next
    case False
    then have ne: "id' a \<noteq> id' b" and fresh: "?key \<notin> processed st" by simp_all
    show ?thesis
    proof (cases "read_cell dm (id' a) (id' b)")
      case (Inl e)
      with assms(1) False show ?thesis
        by (simp add: visit_pair_def Let_def consolidating_def)
    next
      case v: (Inr v)
      show ?thesis
      proof (cases "read_cell dm (id' b) (id' a)")
        case (Inl e)
        with assms(1) False v show ?thesis
          by (simp add: visit_pair_def Let_def consolidating_def)
      next
        case w: (Inr w)
        let ?net = "net_debt dm (id' a) (id' b)"
        from assms(1) have dm: "debtMatrix st = dm" by (simp add: consolidating_def)
        from False v w dm
        have eq: "fst (visit_pair a st b) = (push_line st a b ?net)\<lparr>processed := insert ?key (processed st)\<rparr>"
          by (simp add: visit_pair_def Let_def read_cell_net [OF v w])
        from ne assms(2,3) have "{id' a, id' b} \<in> {B. B \<subseteq> id' ` set ms \<and> card B = 2}" by simp
        then have "Min {id' a, id' b} @ ''-'' @ Max {id' a, id' b} \<in> ?K" by (rule imageI)
        then have key: "?key \<in> ?K" by (simp only: pair_key_Min_Max)
        from assms(1) fresh have nk: "?key \<notin> line_key ` set (results st)"
          by (auto simp: consolidating_def)
        from push_line_cases [of st a b ?net] show ?thesis
        proof (elim disjE exE conjE)
          assume "push_line st a b ?net = st"
          with assms(1) key show ?thesis
            unfolding eq by (auto simp: consolidating_def)
        next
          fix n
          assume n: "?net = Num n" "0.01 < n"
            and p: "push_line st a b ?net =
              st\<lparr>results := results st @ [\<lparr>ower = a, owed = b, line_amount = Math_round n\<rparr>]\<rparr>"
          have lk: "line_key \<lparr>ower = a, owed = b, line_amount = Math_round n\<rparr> = ?key"
            by (simp add: line_key_def)
          from assms(1) key nk n show ?thesis
            unfolding eq p by (auto simp: consolidating_def lk)
        next
          fix n
          assume n: "?net = Num n" "n < - 0.01"
            and p: "push_line st a b ?net =
              st\<lparr>results := results st @ [\<lparr>ower = b, owed = a, line_amount = Math_round \<bar>n\<bar>\<rparr>]\<rparr>"
          have lk: "line_key \<lparr>ower = b, owed = a, line_amount = Math_round \<bar>n\<bar>\<rparr> = ?key"
            by (simp add: line_key_def pair_key_sym)
          from net_debt_swap [OF n(1)] n(2)
          have "\<exists>m. net_debt dm (id' b) (id' a) = Num m \<and> 0.01 < m" by simp
          with assms(1) key nk show ?thesis
            unfolding eq p by (auto simp: consolidating_def lk)
        qed
      qed
    qed
  qed
qed

lemma consolidate_consolidating:
  assumes "consolidating ms dm st"
  shows "consolidating ms dm (fst (consolidate st))"
proof -
  from assms have ms: "rd_members st = ms" by (simp add: consolidating_def)
  have inner: "consolidating ms dm (fst (forEach (visit_pair a) s (rd_members s)))"
    if "consolidating ms dm s" "a \<in> set ms" for s a
  proof -
    from that(1) have "rd_members s = ms" by (simp add: consolidating_def)
    moreover have "consolidating ms dm (fst (forEach (visit_pair a) s ms))"
      using that by (intro forEach_preserves_in [where P = "consolidating ms dm"])
        (simp_all add: visit_pair_consolidating)
    ultimately show ?thesis by simp
  qed
  show ?thesis
    unfolding consolidate_def ms
    by (rule forEach_preserves_in [where P = "consolidating ms dm"]) (simp_all add: inner assms)
qed

lemma pair_debt_untouched: "untouched ms st \<Longrightarrow> untouched ms (fst (pair_debt paid sp st p))"
  by (simp add: pair_debt_def Let_def untouched_def split: sum.splits)

lemma expense_debts_untouched: "untouched ms st \<Longrightarrow> untouched ms (fst (expense_debts st ex))"
  unfolding expense_debts_def
  by (simp add: forEach_preserves [where P = "untouched ms"] pair_debt_untouched)

lemma build_matrix_untouched: "untouched ms (fst (build_matrix (raw_start es ms)))"
  unfolding build_matrix_def
  by (rule forEach_preserves [where P = "untouched ms"])
     (simp_all add: expense_debts_untouched, simp add: untouched_def raw_start_def)

lemma run_consolidating:
  "consolidating ms (debtMatrix (fst (getDetailedRawDebts_run es ms)))
     (fst (getDetailedRawDebts_run es ms))"
proof -
  let ?b = "build_matrix (raw_start es ms)"
  from build_matrix_untouched [of ms es]
  have c: "consolidating ms (debtMatrix (fst ?b)) (fst ?b)"
    by (simp add: untouched_def consolidating_def)
  show ?thesis
  proof (cases "snd ?b")
    case None
    then have run: "getDetailedRawDebts_run es ms = consolidate (fst ?b)"
      by (cases ?b) (simp add: getDetailedRawDebts_run_def raw_start_def)
    from consolidate_consolidating [OF c]
    have c': "consolidating ms (debtMatrix (fst ?b)) (fst (consolidate (fst ?b)))" .
    then have "debtMatrix (fst (consolidate (fst ?b))) = debtMatrix (fst ?b)"
      by (simp add: consolidating_def)
    with c' show ?thesis by (simp add: run)
  next
    case (Some e)
    then have "getDetailedRawDebts_run es ms = ?b"
      by (cases ?b) (simp add: getDetailedRawDebts_run_def raw_start_def)
    with c show ?thesis by simp
  qed
qed

lemma choose_two_mono: "m \<le> n \<Longrightarrow> m choose 2 \<le> n choose 2"
  unfolding choose_two by (intro div_le_mono mult_le_mono) simp_all

lemma pair_keys_card:
  assumes "K \<subseteq> (\<lambda>B. Min B @ ''-'' @ Max B) ` {B. B \<subseteq> id' ` set ms \<and> card B = 2}"
  shows "card K \<le> length ms choose 2"
proof -
  let ?S = "{B. B \<subseteq> id' ` set ms \<and> card B = 2}"
  have fin: "finite ?S" by simp
  have "card K \<le> card ((\<lambda>B. Min B @ ''-'' @ Max B) ` ?S)"
    using assms fin by (intro card_mono finite_imageI)
  also have "\<dots> \<le> card ?S" using fin by (rule card_image_le)
  also have "\<dots> = card (id' ` set ms) choose 2" by (simp add: n_subsets)
  also have "\<dots> \<le> length ms choose 2"
    by (intro choose_two_mono order_trans [OF card_image_le card_length]) simp
  finally show ?thesis .
qed

lemma consolidating_count:
  assumes "consolidating ms dm st"
  shows "length (results st) \<le> length ms choose 2"
proof -
  from assms have d: "distinct (map line_key (results st))"
    and sub: "line_key ` set (results st) \<subseteq> processed st"
    and K: "processed st \<subseteq> (\<lambda>B. Min B @ ''-'' @ Max B) ` {B. B \<subseteq> id' ` set ms \<and> card B = 2}"
    by (simp_all add: consolidating_def)
  from d have "length (results st) = card (line_key ` set (results st))"
    by (metis distinct_card length_map set_map)
  also have "\<dots> \<le> length ms choose 2"
    using sub K by (intro pair_keys_card) blast
  finally show ?thesis .
qed

lemma consolidating_pairs:
  assumes "consolidating ms dm st"
  shows "distinct (map line_pair (results st))"
proof -
  have eq: "map line_key (results st) = map (\<lambda>B. Min B @ ''-'' @ Max B) (map line_pair (results st))"
    by (simp add: line_key_pair)
  from assms have "distinct (map line_key (results st))" by (simp add: consolidating_def)
  then have "distinct (map (\<lambda>B. Min B @ ''-'' @ Max B) (map line_pair (results st)))"
    unfolding eq .
  then show ?thesis unfolding distinct_map [of _ "map line_pair (results st)"] by blast
qed

lemma consolidating_net:
  assumes "consolidating ms dm st" "net_debt dm x y = Num n" "\<bar>n\<bar> \<le> 0.01"
  shows "{x, y} \<notin> line_pair ` set (results st)"
proof
  assume "{x, y} \<in> line_pair ` set (results st)"
  then obtain l where l: "l \<in> set (results st)" "{x, y} = {id' (ower l), id' (owed l)}"
    by (auto simp: line_pair_def)
  with assms(1) obtain m where m: "net_debt dm (id' (ower l)) (id' (owed l)) = Num m" "0.01 < m"
    unfolding consolidating_def by blast
  from l(2) consider "x = id' (ower l)" "y = id' (owed l)" | "x = id' (owed l)" "y = id' (ower l)"
    by (auto simp: doubleton_eq_iff)
  then show False
  proof cases
    case 1
    with m assms(2,3) show False by simp
  next
    case 2
    with net_debt_swap [OF m(1)] m(2) assms(2,3) show False by simp
  qed
qed

lemma getDetailedRawDebts_Inr:
  assumes "getDetailedRawDebts es ms = Inr ls"
  shows "ls = map format_line (results (fst (getDetailedRawDebts_run es ms)))"
  using assms
  by (cases "getDetailedRawDebts_run es ms")
     (auto simp: getDetailedRawDebts_def raw_debt_lines_def split: option.splits)

text \<open>
  Claim C9. Whenever the call returns a list, the list holds at most one line for every
  unordered pair of member ids, hence at most C(n,2) lines for n members, and a pair whose
  net debt in the matrix lies within 0.01 of zero (in particular a pair whose two raw debts
  are equal) has no line.
\<close>

theorem raw_debt_lines_one_per_pair:
  assumes "getDetailedRawDebts expenses members = Inr ls"
  shows "ls = map format_line (results (fst (getDetailedRawDebts_run expenses members))) \<and>
         length ls \<le> length members choose 2 \<and>
         distinct (map line_pair (results (fst (getDetailedRawDebts_run expenses members)))) \<and>
         (\<forall>x y n. net_debt (debtMatrix (fst (getDetailedRawDebts_run expenses members))) x y = Num n
              \<and> \<bar>n\<bar> \<le> 0.01
            \<longrightarrow> {x, y} \<notin> line_pair ` set (results (fst (getDetailedRawDebts_run expenses members))))"
proof -
  let ?st = "fst (getDetailedRawDebts_run expenses members)"
  note c = run_consolidating [of members expenses]
  note ls = getDetailedRawDebts_Inr [OF assms]
  from consolidating_count [OF c] ls have "length ls \<le> length members choose 2" by simp
  moreover note consolidating_pairs [OF c]
  moreover have "\<forall>x y n. net_debt (debtMatrix ?st) x y = Num n \<and> \<bar>n\<bar> \<le> 0.01
       \<longrightarrow> {x, y} \<notin> line_pair ` set (results ?st)"
    using consolidating_net [OF c] by blast
  ultimately show ?thesis using ls by blast
qed

theorem raw_debt_lines_one_per_pair_witness:
  "getDetailedRawDebts [loan, taxi] [alice, bob, carol] = Inr [line70] \<and>
   length [line70] \<le> length [alice, bob, carol] choose 2 \<and>
   net_debt (debtMatrix (fst (getDetailedRawDebts_run [loan, taxi] [alice, bob, carol]))) ''b'' ''c''
     = Num 0 \<and>
   {''b'', ''c''} \<notin> line_pair `
      set (results (fst (getDetailedRawDebts_run [loan, taxi] [alice, bob, carol])))"
proof -
  have r: "getDetailedRawDebts [loan, taxi] [alice, bob, carol] = Inr [line70]"
    by (simp add: raw_defs ex_defs line70_def)
  have n: "net_debt (debtMatrix (fst (getDetailedRawDebts_run [loan, taxi] [alice, bob, carol])))
      ''b'' ''c'' = Num 0"
    by (simp add: raw_defs ex_defs net_debt_def cell_at_def)
  note t = raw_debt_lines_one_per_pair [OF r]
  from t have len: "length [line70] \<le> length [alice, bob, carol] choose 2" by blast
  from t have a: "\<And>x y n.
      net_debt (debtMatrix (fst (getDetailedRawDebts_run [loan, taxi] [alice, bob, carol]))) x y = Num n
      \<Longrightarrow> \<bar>n\<bar> \<le> 0.01 \<Longrightarrow>
      {x, y} \<notin> line_pair ` set (results (fst (getDetailedRawDebts_run [loan, taxi] [alice, bob, carol])))"
    by blast
  from a [OF n] have "{''b'', ''c''} \<notin> line_pair `
      set (results (fst (getDetailedRawDebts_run [loan, taxi] [alice, bob, carol])))" by simp
  with r len n show ?thesis by blast
qed

end
